theory Spec2Isabelle
  imports Main "HOL-Library.Word" "HOL-Library.Monad_Syntax"
begin

section \<open>Stackless cooperative tasks: the stack example of async.h\<close>

text \<open>
  The development embeds \<^verbatim>\<open>src/async/example-stack.c\<close>: the two task functions
  \<^verbatim>\<open>foo\<close> and \<^verbatim>\<open>bar\<close> and the driver \<^verbatim>\<open>example_stack\<close>. The C objects live in
  an explicit store, because the task functions reach their state only through
  pointers (\<^verbatim>\<open>pt->stack\<close>, \<^verbatim>\<open>&stack->bar_pt\<close>, \<^verbatim>\<open>*stack->lock\<close>) and the
  properties of interest are about which objects a call reads and writes.
  A computation returns \<open>None\<close> where the C program has undefined behaviour
  (a null, dangling or wrongly typed pointer is dereferenced).
\<close>

subsection \<open>Data model\<close>

type_synonym addr = nat

text \<open>The lifecycle phase of a Control Block.\<close>

datatype phase = NOT_STARTED | SUSPENDED | FINISHED

text \<open>
  \<^verbatim>\<open>struct async\<close>, the Control Block. The header \<^verbatim>\<open>async.h\<close> is not part of the
  sources; the source shows the field \<^verbatim>\<open>stack\<close> (a \<^verbatim>\<open>void *\<close>, here an optional
  address, \<open>None\<close> for \<^verbatim>\<open>NULL\<close>), the other two fields are the ones the specification names.
\<close>

record async_struct =
  resumePoint :: nat
  phase :: phase
  stack :: "addr option"

text \<open>\<^verbatim>\<open>struct foo_stack\<close> and \<^verbatim>\<open>struct bar_stack\<close>, the Local-State Frames.\<close>

record foo_stack =
  num :: "32 word"
  bar_pt :: async_struct

record bar_stack =
  lock :: "addr option"

text \<open>What an address of the store can hold.\<close>

datatype object =
    AsyncObj async_struct
  | FooStackObj foo_stack
  | BarStackObj bar_stack
  | IntObj "32 word"

text \<open>
  A \<^verbatim>\<open>struct async *\<close> points either to a Control Block that is an object of its own
  (\<^verbatim>\<open>&pt\<close> in \<^verbatim>\<open>example_stack\<close>) or to the member \<^verbatim>\<open>bar_pt\<close> of a
  \<^verbatim>\<open>struct foo_stack\<close> (\<^verbatim>\<open>&stack->bar_pt\<close> in \<^verbatim>\<open>foo\<close>).
\<close>

datatype async_ptr = AsyncAt addr | BarPtOf addr

text \<open>
  Standard output, one event per \<^verbatim>\<open>puts\<close> or \<^verbatim>\<open>printf\<close> call: the text of the line
  (without its newline) and, for \<^verbatim>\<open>printf\<close>, the value of the \<^verbatim>\<open>%d\<close> argument,
  \<open>None\<close> when the C variable printed is indeterminate.
\<close>

datatype out_event = Puts string | Printf string "int option"

record state =
  heap :: "addr \<rightharpoonup> object"
  stdout :: "out_event list"

text \<open>The value a task function returns: the type \<^verbatim>\<open>async\<close> of the source.\<close>

datatype async = ASYNC_SUSPENDED | ASYNC_FINISHED

datatype error = ProtocolMisuse

type_synonym result = "error + async"

text \<open>
  The two policies the specification allows for a resume call on a \<open>FINISHED\<close>
  Control Block: return "done" again, or report an error.
\<close>

datatype misuse_policy = NoOpDone | ReportError

subsection \<open>Memory accesses\<close>

fun load_async :: "state \<Rightarrow> async_ptr \<Rightarrow> async_struct option" where
  "load_async s (AsyncAt a) =
     (case heap s a of Some (AsyncObj blk) \<Rightarrow> Some blk | _ \<Rightarrow> None)"
| "load_async s (BarPtOf a) =
     (case heap s a of Some (FooStackObj f) \<Rightarrow> Some (bar_pt f) | _ \<Rightarrow> None)"

fun store_async :: "async_ptr \<Rightarrow> async_struct \<Rightarrow> state \<Rightarrow> state option" where
  "store_async (AsyncAt a) blk s =
     (case heap s a of
        Some (AsyncObj _) \<Rightarrow> Some (s\<lparr>heap := (heap s)(a \<mapsto> AsyncObj blk)\<rparr>)
      | _ \<Rightarrow> None)"
| "store_async (BarPtOf a) blk s =
     (case heap s a of
        Some (FooStackObj f) \<Rightarrow> Some (s\<lparr>heap := (heap s)(a \<mapsto> FooStackObj (f\<lparr>bar_pt := blk\<rparr>))\<rparr>)
      | _ \<Rightarrow> None)"

definition load_foo_stack :: "state \<Rightarrow> addr \<Rightarrow> foo_stack option" where
  "load_foo_stack s a = (case heap s a of Some (FooStackObj f) \<Rightarrow> Some f | _ \<Rightarrow> None)"

definition store_foo_stack :: "addr \<Rightarrow> foo_stack \<Rightarrow> state \<Rightarrow> state option" where
  "store_foo_stack a f s =
     (case heap s a of
        Some (FooStackObj _) \<Rightarrow> Some (s\<lparr>heap := (heap s)(a \<mapsto> FooStackObj f)\<rparr>)
      | _ \<Rightarrow> None)"

definition load_bar_stack :: "state \<Rightarrow> addr \<Rightarrow> bar_stack option" where
  "load_bar_stack s a = (case heap s a of Some (BarStackObj b) \<Rightarrow> Some b | _ \<Rightarrow> None)"

definition load_int :: "state \<Rightarrow> addr \<Rightarrow> 32 word option" where
  "load_int s a = (case heap s a of Some (IntObj v) \<Rightarrow> Some v | _ \<Rightarrow> None)"

definition store_int :: "addr \<Rightarrow> 32 word \<Rightarrow> state \<Rightarrow> state option" where
  "store_int a v s =
     (case heap s a of
        Some (IntObj _) \<Rightarrow> Some (s\<lparr>heap := (heap s)(a \<mapsto> IntObj v)\<rparr>)
      | _ \<Rightarrow> None)"

definition puts :: "string \<Rightarrow> state \<Rightarrow> state" where
  "puts line s = s\<lparr>stdout := stdout s @ [Puts line]\<rparr>"

definition printf :: "string \<Rightarrow> int option \<Rightarrow> state \<Rightarrow> state" where
  "printf line d s = s\<lparr>stdout := stdout s @ [Printf line d]\<rparr>"

subsection \<open>The resume protocol\<close>

text \<open>
  Modelled from the spec: the macros \<^verbatim>\<open>async_init\<close>, \<^verbatim>\<open>async_begin\<close>,
  \<^verbatim>\<open>await\<close> and \<^verbatim>\<open>async_end\<close> of \<^verbatim>\<open>async.h\<close>, which is not among the sources.
  \<open>async_init\<close> sets \<open>phase = NOT_STARTED\<close> and \<open>resumePoint = 0\<close>; it leaves the
  frame reference alone (\<^verbatim>\<open>example_stack\<close> sets \<^verbatim>\<open>.bar_pt.stack\<close> before \<^verbatim>\<open>foo\<close>
  initialises \<^verbatim>\<open>bar_pt\<close>).
\<close>

definition async_init :: "async_ptr \<Rightarrow> state \<Rightarrow> state option" where
  "async_init pt s = do {
     blk \<leftarrow> load_async s pt;
     store_async pt (blk\<lparr>resumePoint := 0, phase := NOT_STARTED\<rparr>) s
   }"

text \<open>
  Modelled from the spec: \<open>async_begin\<close> dispatches on the Control Block. A
  \<open>FINISHED\<close> block is terminal: the call returns at once, with the outcome the
  chosen policy fixes. Otherwise control goes to the statement \<open>resumePoint\<close> names.
\<close>

datatype dispatch = Goto nat | Return result

definition misuse_outcome :: "misuse_policy \<Rightarrow> result" where
  "misuse_outcome pol =
     (case pol of NoOpDone \<Rightarrow> Inr ASYNC_FINISHED | ReportError \<Rightarrow> Inl ProtocolMisuse)"

definition async_begin :: "misuse_policy \<Rightarrow> async_struct \<Rightarrow> dispatch" where
  "async_begin pol blk =
     (if phase blk = FINISHED then Return (misuse_outcome pol)
      else Goto (resumePoint blk))"

text \<open>
  Modelled from the spec: the false branch of \<open>await\<close>. It records the await
  statement (named by its source line) as the new \<open>resumePoint\<close>, sets
  \<open>phase = SUSPENDED\<close> and returns to the caller.
\<close>

definition await_suspend :: "async_ptr \<Rightarrow> nat \<Rightarrow> state \<Rightarrow> (result \<times> state) option" where
  "await_suspend pt label s = do {
     blk \<leftarrow> load_async s pt;
     s' \<leftarrow> store_async pt (blk\<lparr>resumePoint := label, phase := SUSPENDED\<rparr>) s;
     Some (Inr ASYNC_SUSPENDED, s')
   }"

text \<open>
  Modelled from the spec: \<open>async_end\<close> marks \<open>phase = FINISHED\<close> and returns
  \<open>FINISHED\<close>.
\<close>

definition async_end :: "async_ptr \<Rightarrow> state \<Rightarrow> (result \<times> state) option" where
  "async_end pt s = do {
     blk \<leftarrow> load_async s pt;
     s' \<leftarrow> store_async pt (blk\<lparr>phase := FINISHED\<rparr>) s;
     Some (Inr ASYNC_FINISHED, s')
   }"

subsection \<open>The task function bar\<close>

text \<open>
  \<^verbatim>\<open>bar\<close>, from its await (source line 126) to its end. \<open>stk\<close> is the local
  \<^verbatim>\<open>stack\<close>, read from \<^verbatim>\<open>pt->stack\<close> on entry.
\<close>

definition bar_L126 :: "async_ptr \<Rightarrow> addr option \<Rightarrow> state \<Rightarrow> (result \<times> state) option" where
  "bar_L126 pt stk s = do {
     a \<leftarrow> stk;
     b \<leftarrow> load_bar_stack s a;
     l \<leftarrow> lock b;
     v \<leftarrow> load_int s l;
     if v = 0 then await_suspend pt 126 s
     else async_end pt (puts ''bar end'' s)
   }"

definition bar :: "misuse_policy \<Rightarrow> async_ptr \<Rightarrow> state \<Rightarrow> (result \<times> state) option" where
  "bar pol pt s = do {
     blk \<leftarrow> load_async s pt;
     let stk = stack blk;
     case async_begin pol blk of
       Return r \<Rightarrow> Some (r, s)
     | Goto n \<Rightarrow>
         if n = 0 then bar_L126 pt stk (puts ''bar start'' s)
         else if n = 126 then bar_L126 pt stk s
         else None
   }"

subsection \<open>The task function foo\<close>

text \<open>
  \<^verbatim>\<open>foo\<close>, from its await (source line 110) to its end. \<open>local_num\<close> is the
  transient local of the source: it holds 11 when control comes from the top of the
  body, and is indeterminate (\<open>None\<close>) when the call entered at the await.
\<close>

definition foo_L110 ::
  "misuse_policy \<Rightarrow> async_ptr \<Rightarrow> addr option \<Rightarrow> 32 word option \<Rightarrow> state \<Rightarrow> (result \<times> state) option" where
  "foo_L110 pol pt stk local_num s = do {
     a \<leftarrow> stk;
     (r, s1) \<leftarrow> bar pol (BarPtOf a) s;
     if r \<noteq> Inr ASYNC_FINISHED then await_suspend pt 110 s1
     else do {
       f \<leftarrow> load_foo_stack s1 a;
       let s2 = printf ''num in the foo stack is still %d'' (Some (sint (num f))) s1;
       let s3 = printf ''but the local_num is now %d'' (map_option sint local_num) s2;
       let s4 = puts ''foo end'' s3;
       async_end pt s4
     }
   }"

definition foo_top ::
  "misuse_policy \<Rightarrow> async_ptr \<Rightarrow> addr option \<Rightarrow> state \<Rightarrow> (result \<times> state) option" where
  "foo_top pol pt stk s = do {
     let s1 = puts ''foo start'' s;
     a \<leftarrow> stk;
     f \<leftarrow> load_foo_stack s1 a;
     s2 \<leftarrow> store_foo_stack a (f\<lparr>num := 23\<rparr>) s1;
     f' \<leftarrow> load_foo_stack s2 a;
     let s3 = printf ''num in the foo stack is %d'' (Some (sint (num f'))) s2;
     let local_num = 11;
     let s4 = printf ''num in the local stack is %d'' (Some (sint local_num)) s3;
     s5 \<leftarrow> async_init (BarPtOf a) s4;
     foo_L110 pol pt stk (Some local_num) s5
   }"

definition foo :: "misuse_policy \<Rightarrow> async_ptr \<Rightarrow> state \<Rightarrow> (result \<times> state) option" where
  "foo pol pt s = do {
     blk \<leftarrow> load_async s pt;
     let stk = stack blk;
     case async_begin pol blk of
       Return r \<Rightarrow> Some (r, s)
     | Goto n \<Rightarrow>
         if n = 0 then foo_top pol pt stk s
         else if n = 110 then foo_L110 pol pt stk None s
         else None
   }"

subsection \<open>The driver example_stack\<close>

text \<open>
  The locals of \<^verbatim>\<open>example_stack\<close> are the objects at the addresses 0 (\<^verbatim>\<open>pt\<close>),
  1 (\<^verbatim>\<open>lock\<close>), 2 (\<^verbatim>\<open>bar_stack\<close>) and 3 (\<^verbatim>\<open>stack\<close>) of an otherwise empty
  store. The zero bit pattern of \<^verbatim>\<open>{0}\<close> is \<open>resumePoint = 0\<close>,
  \<open>phase = NOT_STARTED\<close> and a null frame reference.
\<close>

definition alloc :: "addr \<Rightarrow> object \<Rightarrow> state \<Rightarrow> state" where
  "alloc a obj s = s\<lparr>heap := (heap s)(a \<mapsto> obj)\<rparr>"

definition zero_async :: async_struct where
  "zero_async = \<lparr>resumePoint = 0, phase = NOT_STARTED, stack = None\<rparr>"

text \<open>Source lines 68 to 89: the set-up, up to the first line printed.\<close>

definition example_stack_setup :: "state option" where
  "example_stack_setup = do {
     let s0 = \<lparr>heap = Map.empty, stdout = []\<rparr>;
     let s1 = alloc 0 (AsyncObj zero_async) s0;
     s2 \<leftarrow> async_init (AsyncAt 0) s1;
     let s3 = alloc 1 (IntObj 0) s2;
     let s4 = alloc 2 (BarStackObj \<lparr>lock = Some 1\<rparr>) s3;
     let s5 = alloc 3 (FooStackObj \<lparr>num = 0, bar_pt = zero_async\<lparr>stack := Some 2\<rparr>\<rparr>) s4;
     pt \<leftarrow> load_async s5 (AsyncAt 0);
     s6 \<leftarrow> store_async (AsyncAt 0) (pt\<lparr>stack := Some 3\<rparr>) s5;
     Some (puts ''Stack Example Start'' s6)
   }"

definition work :: "state \<Rightarrow> state" where
  "work s = puts ''Hello World!, I am doing a lot of work'' s"

text \<open>
  Source line 90, the first call of \<^verbatim>\<open>foo\<close>; the C code discards the value
  returned, the model keeps it.
\<close>

definition example_stack_first :: "misuse_policy \<Rightarrow> (result \<times> state) option" where
  "example_stack_first pol = do {
     s \<leftarrow> example_stack_setup;
     foo pol (AsyncAt 0) s
   }"

text \<open>Source lines 91 to 93: \<^verbatim>\<open>work\<close>, the release of the lock, the second call.\<close>

definition example_stack_second :: "misuse_policy \<Rightarrow> (result \<times> state) option" where
  "example_stack_second pol = do {
     (r1, s1) \<leftarrow> example_stack_first pol;
     let s2 = work s1;
     s3 \<leftarrow> store_int 1 1 s2;
     foo pol (AsyncAt 0) s3
   }"

definition example_stack :: "misuse_policy \<Rightarrow> state option" where
  "example_stack pol = do {
     (r2, s4) \<leftarrow> example_stack_second pol;
     Some (puts ''Stack Example End'' s4)
   }"

subsection \<open>Drivers in general\<close>

text \<open>
  What code outside the task functions can do between two resume calls: resume
  some instance of \<^verbatim>\<open>foo\<close> or of \<^verbatim>\<open>bar\<close>, or store a value into an \<^verbatim>\<open>int\<close>
  object (as \<^verbatim>\<open>lock = 1\<close> in \<^verbatim>\<open>example_stack\<close>). \<open>run\<close> performs a list of such
  actions in order and logs the value each resume call returned.
\<close>

datatype action = Resume_foo async_ptr | Resume_bar async_ptr | Store addr "32 word"

fun run :: "misuse_policy \<Rightarrow> action list \<Rightarrow> state \<Rightarrow> ((async_ptr \<times> result) list \<times> state) option" where
  "run pol [] s = Some ([], s)"
| "run pol (Resume_foo pt # acts) s = do {
     (r, s1) \<leftarrow> foo pol pt s;
     (log, s2) \<leftarrow> run pol acts s1;
     Some ((pt, r) # log, s2)
   }"
| "run pol (Resume_bar pt # acts) s = do {
     (r, s1) \<leftarrow> bar pol pt s;
     (log, s2) \<leftarrow> run pol acts s1;
     Some ((pt, r) # log, s2)
   }"
| "run pol (Store a v # acts) s = do {
     s1 \<leftarrow> store_int a v s;
     run pol acts s1
   }"

subsection \<open>Well-formed task instances\<close>

text \<open>
  A \<^verbatim>\<open>bar\<close> instance: the Control Block at \<open>pt\<close> refers to a \<^verbatim>\<open>struct bar_stack\<close>
  at \<open>bs\<close>, whose \<^verbatim>\<open>lock\<close> points to an \<^verbatim>\<open>int\<close> at \<open>lk\<close>.
\<close>

definition bar_instance :: "state \<Rightarrow> async_ptr \<Rightarrow> addr \<Rightarrow> addr \<Rightarrow> bool" where
  "bar_instance s pt bs lk =
     (case load_async s pt of
        None \<Rightarrow> False
      | Some blk \<Rightarrow>
          stack blk = Some bs \<and>
          (case load_bar_stack s bs of
             None \<Rightarrow> False
           | Some b \<Rightarrow> lock b = Some lk \<and> load_int s lk \<noteq> None))"

text \<open>
  A \<^verbatim>\<open>foo\<close> instance: a Control Block object at \<open>pa\<close> refers to a
  \<^verbatim>\<open>struct foo_stack\<close> at \<open>fs\<close>, whose embedded \<^verbatim>\<open>bar_pt\<close> is a \<^verbatim>\<open>bar\<close> instance.
\<close>

definition foo_instance :: "state \<Rightarrow> addr \<Rightarrow> addr \<Rightarrow> addr \<Rightarrow> addr \<Rightarrow> bool" where
  "foo_instance s pa fs bs lk =
     (case load_async s (AsyncAt pa) of
        None \<Rightarrow> False
      | Some blk \<Rightarrow> stack blk = Some fs \<and> bar_instance s (BarPtOf fs) bs lk)"

subsection \<open>Footprints and the shape of the store\<close>

text \<open>The address of the object a \<^verbatim>\<open>struct async *\<close> points into.\<close>

fun block_addr :: "async_ptr \<Rightarrow> addr" where
  "block_addr (AsyncAt a) = a"
| "block_addr (BarPtOf a) = a"

text \<open>The frame a Control Block refers to (\<^verbatim>\<open>pt->stack\<close>).\<close>

definition frame_of :: "state \<Rightarrow> async_ptr \<Rightarrow> addr option" where
  "frame_of s pt = (case load_async s pt of None \<Rightarrow> None | Some blk \<Rightarrow> stack blk)"

text \<open>
  The addresses an action may write: a resume call of \<^verbatim>\<open>foo\<close> writes into its
  Control Block and its frame, one of \<^verbatim>\<open>bar\<close> into its Control Block only.
\<close>

fun footprint :: "state \<Rightarrow> action \<Rightarrow> addr set" where
  "footprint s (Resume_foo pt) = insert (block_addr pt) (set_option (frame_of s pt))"
| "footprint s (Resume_bar pt) = {block_addr pt}"
| "footprint s (Store a v) = {a}"

text \<open>
  The shape of an object: its kind and the pointers it holds, without the fields
  the task functions assign (\<open>resumePoint\<close>, \<open>phase\<close>, \<open>num\<close>, the value of an
  \<^verbatim>\<open>int\<close>).
\<close>

datatype shape = AsyncShape "addr option" | FooStackShape "addr option" | BarStackShape "addr option" | IntShape

fun shape_of :: "object \<Rightarrow> shape" where
  "shape_of (AsyncObj blk) = AsyncShape (stack blk)"
| "shape_of (FooStackObj f) = FooStackShape (stack (bar_pt f))"
| "shape_of (BarStackObj b) = BarStackShape (lock b)"
| "shape_of (IntObj v) = IntShape"

definition same_shape :: "state \<Rightarrow> state \<Rightarrow> bool" where
  "same_shape s t = (\<forall>a. map_option shape_of (heap t a) = map_option shape_of (heap s a))"

subsection \<open>The task functions as transitions on values\<close>

text \<open>
  What one call of \<^verbatim>\<open>bar\<close> does, as a function of the Control Block \<open>blk\<close> and of
  the value \<open>v\<close> of the flag: the value returned, the new Control Block and the
  lines printed. The lemmas \<open>bar_closed\<close> and \<open>foo_closed\<close> below prove that the
  task functions on a well-formed instance compute exactly these transitions.
\<close>

definition bar_L126_step :: "async_struct \<Rightarrow> 32 word \<Rightarrow> result \<times> async_struct \<times> out_event list" where
  "bar_L126_step blk v =
     (if v = 0 then (Inr ASYNC_SUSPENDED, blk\<lparr>resumePoint := 126, phase := SUSPENDED\<rparr>, [])
      else (Inr ASYNC_FINISHED, blk\<lparr>phase := FINISHED\<rparr>, [Puts ''bar end'']))"

definition bar_step ::
  "misuse_policy \<Rightarrow> async_struct \<Rightarrow> 32 word \<Rightarrow> (result \<times> async_struct \<times> out_event list) option" where
  "bar_step pol blk v =
     (if phase blk = FINISHED then Some (misuse_outcome pol, blk, [])
      else if resumePoint blk = 0 then
        (case bar_L126_step blk v of (r, blk', out) \<Rightarrow> Some (r, blk', Puts ''bar start'' # out))
      else if resumePoint blk = 126 then Some (bar_L126_step blk v)
      else None)"

fun put_async :: "async_ptr \<Rightarrow> async_struct \<Rightarrow> (addr \<rightharpoonup> object) \<Rightarrow> (addr \<rightharpoonup> object)" where
  "put_async (AsyncAt a) blk h = h(a \<mapsto> AsyncObj blk)"
| "put_async (BarPtOf a) blk h =
     (case h a of Some (FooStackObj f) \<Rightarrow> h(a \<mapsto> FooStackObj (f\<lparr>bar_pt := blk\<rparr>)) | _ \<Rightarrow> h)"

definition foo_L110_step ::
  "misuse_policy \<Rightarrow> async_struct \<Rightarrow> foo_stack \<Rightarrow> 32 word \<Rightarrow> 32 word option \<Rightarrow>
   (result \<times> async_struct \<times> foo_stack \<times> out_event list) option" where
  "foo_L110_step pol blk f v local_num =
     (case bar_step pol (bar_pt f) v of
        None \<Rightarrow> None
      | Some (r, cb, out) \<Rightarrow>
          if r \<noteq> Inr ASYNC_FINISHED
          then Some (Inr ASYNC_SUSPENDED, blk\<lparr>resumePoint := 110, phase := SUSPENDED\<rparr>, f\<lparr>bar_pt := cb\<rparr>, out)
          else Some (Inr ASYNC_FINISHED, blk\<lparr>phase := FINISHED\<rparr>, f\<lparr>bar_pt := cb\<rparr>,
                 out @ [Printf ''num in the foo stack is still %d'' (Some (sint (num f))),
                        Printf ''but the local_num is now %d'' (map_option sint local_num),
                        Puts ''foo end'']))"

definition foo_step ::
  "misuse_policy \<Rightarrow> async_struct \<Rightarrow> foo_stack \<Rightarrow> 32 word \<Rightarrow>
   (result \<times> async_struct \<times> foo_stack \<times> out_event list) option" where
  "foo_step pol blk f v =
     (if phase blk = FINISHED then Some (misuse_outcome pol, blk, f, [])
      else if resumePoint blk = 0 then
        (case foo_L110_step pol blk
                (f\<lparr>num := 23, bar_pt := (bar_pt f)\<lparr>resumePoint := 0, phase := NOT_STARTED\<rparr>\<rparr>) v (Some 11) of
           None \<Rightarrow> None
         | Some (r, blk', f', out) \<Rightarrow>
             Some (r, blk', f',
               [Puts ''foo start'', Printf ''num in the foo stack is %d'' (Some 23),
                Printf ''num in the local stack is %d'' (Some 11)] @ out))
      else if resumePoint blk = 110 then foo_L110_step pol blk f v None
      else None)"

text \<open>
  The lines \<^verbatim>\<open>foo\<close> and its child \<^verbatim>\<open>bar\<close> print when the body of each runs
  once from top to end, in program order; \<open>ln\<close> is what the last \<^verbatim>\<open>printf\<close>
  finds in the transient local.
\<close>

definition foo_trace :: "int option \<Rightarrow> out_event list" where
  "foo_trace ln =
     [Puts ''foo start'',
      Printf ''num in the foo stack is %d'' (Some 23),
      Printf ''num in the local stack is %d'' (Some 11),
      Puts ''bar start'',
      Puts ''bar end'',
      Printf ''num in the foo stack is still %d'' (Some 23),
      Printf ''but the local_num is now %d'' ln,
      Puts ''foo end'']"

text \<open>
  \<open>writes_only A s t\<close>: going from \<open>s\<close> to \<open>t\<close>, the store changed at most at the
  addresses in \<open>A\<close>, and no object changed its shape.
\<close>

definition writes_only :: "addr set \<Rightarrow> state \<Rightarrow> state \<Rightarrow> bool" where
  "writes_only A s t = ((\<forall>a. a \<notin> A \<longrightarrow> heap t a = heap s a) \<and> same_shape s t)"

subsection \<open>A concrete store\<close>

text \<open>
  Two instances of \<^verbatim>\<open>foo\<close>, laid out as \<^verbatim>\<open>example_stack\<close> lays out its one: the
  Control Blocks at 0 and 10, the flags at 1 and 11 (both holding \<open>v\<close>), the frames
  of \<^verbatim>\<open>bar\<close> at 2 and 12, the frames of \<^verbatim>\<open>foo\<close> at 3 and 13.
\<close>

definition sample_state :: "32 word \<Rightarrow> state" where
  "sample_state v =
     \<lparr>heap =
        [0 \<mapsto> AsyncObj (zero_async\<lparr>stack := Some 3\<rparr>),
         1 \<mapsto> IntObj v,
         2 \<mapsto> BarStackObj \<lparr>lock = Some 1\<rparr>,
         3 \<mapsto> FooStackObj \<lparr>num = 0, bar_pt = zero_async\<lparr>stack := Some 2\<rparr>\<rparr>,
         10 \<mapsto> AsyncObj (zero_async\<lparr>stack := Some 13\<rparr>),
         11 \<mapsto> IntObj v,
         12 \<mapsto> BarStackObj \<lparr>lock = Some 11\<rparr>,
         13 \<mapsto> FooStackObj \<lparr>num = 0, bar_pt = zero_async\<lparr>stack := Some 12\<rparr>\<rparr>],
      stdout = []\<rparr>"

text \<open>The Control Block at \<open>pt\<close> is in its terminal phase.\<close>

definition finished_at :: "state \<Rightarrow> async_ptr \<Rightarrow> bool" where
  "finished_at s pt = (case load_async s pt of None \<Rightarrow> False | Some blk \<Rightarrow> phase blk = FINISHED)"

text \<open>
  The instance of \<^verbatim>\<open>foo\<close> at \<open>pa\<close>, \<open>fs\<close> waits at its await, its child at its own,
  and the frame field holds the 23 stored before.
\<close>

definition parked :: "state \<Rightarrow> addr \<Rightarrow> addr \<Rightarrow> bool" where
  "parked s pa fs =
     (case load_async s (AsyncAt pa) of
        None \<Rightarrow> False
      | Some blk \<Rightarrow>
          phase blk = SUSPENDED \<and> resumePoint blk = 110 \<and>
          (case load_foo_stack s fs of
             None \<Rightarrow> False
           | Some f \<Rightarrow>
               num f = 23 \<and> phase (bar_pt f) = SUSPENDED \<and> resumePoint (bar_pt f) = 126))"

text \<open>One action of a run, with the log entries it makes.\<close>

fun perform ::
  "misuse_policy \<Rightarrow> action \<Rightarrow> state \<Rightarrow> ((async_ptr \<times> result) list \<times> state) option" where
  "perform pol (Resume_foo pt) s = map_option (\<lambda>(r, s1). ([(pt, r)], s1)) (foo pol pt s)"
| "perform pol (Resume_bar pt) s = map_option (\<lambda>(r, s1). ([(pt, r)], s1)) (bar pol pt s)"
| "perform pol (Store a v) s = map_option (\<lambda>s1. ([], s1)) (store_int a v s)"

text \<open>
  The actions that drive one instance: its own resume call \<open>d\<close> and the stores
  into its flag at \<open>lk\<close>. Filtering a run by \<open>drives d lk\<close> gives the run of that
  instance in isolation.
\<close>

definition drives :: "action \<Rightarrow> addr \<Rightarrow> action \<Rightarrow> bool" where
  "drives d lk act = (act = d \<or> (case act of Store a v \<Rightarrow> a = lk | _ \<Rightarrow> False))"

section \<open>Basic facts\<close>

lemma heap_stdout_swap [simp]:
  "heap_update g (stdout_update f s) = stdout_update f (heap_update g s)"
  by (cases s) simp

lemma store_async_put:
  "load_async s pt = Some blk \<Longrightarrow> store_async pt blk' s = Some (s\<lparr>heap := put_async pt blk' (heap s)\<rparr>)"
  by (cases pt) (auto split: option.splits object.splits)

lemma bar_closed:
  assumes "load_async s pt = Some blk" "stack blk = Some bs"
    "heap s bs = Some (BarStackObj b)" "lock b = Some lk" "heap s lk = Some (IntObj v)"
  shows "bar pol pt s =
     map_option (\<lambda>(r, blk', out). (r, s\<lparr>heap := put_async pt blk' (heap s), stdout := stdout s @ out\<rparr>))
       (bar_step pol blk v)"
  using assms
  by (cases pt) (auto simp: bar_def bar_step_def async_begin_def bar_L126_def bar_L126_step_def
     load_bar_stack_def load_int_def await_suspend_def async_end_def puts_def Let_def map_upd_triv
     split: option.splits object.splits)

lemma foo_L110_closed:
  assumes "heap s pa = Some (AsyncObj blk)" "heap s fs = Some (FooStackObj f)"
    "stack (bar_pt f) = Some bs" "heap s bs = Some (BarStackObj b)" "lock b = Some lk"
    "heap s lk = Some (IntObj v)"
  shows "foo_L110 pol (AsyncAt pa) (Some fs) ln s =
     map_option (\<lambda>(r, blk', f', out).
        (r, s\<lparr>heap := (heap s)(fs \<mapsto> FooStackObj f', pa \<mapsto> AsyncObj blk'), stdout := stdout s @ out\<rparr>))
       (foo_L110_step pol blk f v ln)"
proof -
  from assms have ne: "pa \<noteq> fs" by auto
  have ld: "load_async s (BarPtOf fs) = Some (bar_pt f)" using assms by simp
  note b = bar_closed [OF ld assms(3-6), of pol]
  show ?thesis
  proof (cases "bar_step pol (bar_pt f) v")
    case None
    then show ?thesis by (simp add: foo_L110_def foo_L110_step_def b)
  next
    case (Some t)
    obtain r cb out where t: "t = (r, cb, out)" by (cases t)
    show ?thesis
      using assms ne Some t
      by (auto simp: foo_L110_def foo_L110_step_def b await_suspend_def async_end_def
          load_foo_stack_def printf_def puts_def Let_def)
  qed
qed

lemma foo_closed:
  assumes "heap s pa = Some (AsyncObj blk)" "stack blk = Some fs" "heap s fs = Some (FooStackObj f)"
    "stack (bar_pt f) = Some bs" "heap s bs = Some (BarStackObj b)" "lock b = Some lk"
    "heap s lk = Some (IntObj v)"
  shows "foo pol (AsyncAt pa) s =
     map_option (\<lambda>(r, blk', f', out).
        (r, s\<lparr>heap := (heap s)(fs \<mapsto> FooStackObj f', pa \<mapsto> AsyncObj blk'), stdout := stdout s @ out\<rparr>))
       (foo_step pol blk f v)"
proof -
  from assms have ne: "pa \<noteq> fs" "fs \<noteq> bs" "fs \<noteq> lk" by auto
  show ?thesis
  proof (cases "phase blk = FINISHED")
    case True
    then show ?thesis using assms
      by (simp add: foo_def foo_step_def async_begin_def map_upd_triv)
  next
    case nf: False
    show ?thesis
    proof (cases "resumePoint blk = 0")
      case True
      let ?f = "f\<lparr>num := 23, bar_pt := (bar_pt f)\<lparr>resumePoint := 0, phase := NOT_STARTED\<rparr>\<rparr>"
      let ?s = "s\<lparr>heap := (heap s)(fs \<mapsto> FooStackObj ?f),
                 stdout := stdout s @ [Puts ''foo start'', Printf ''num in the foo stack is %d'' (Some 23),
                Printf ''num in the local stack is %d'' (Some 11)]\<rparr>"
      have top: "foo_top pol (AsyncAt pa) (Some fs) s = foo_L110 pol (AsyncAt pa) (Some fs) (Some 11) ?s"
        using assms by (simp add: foo_top_def Let_def puts_def printf_def load_foo_stack_def
            store_foo_stack_def async_init_def)
      have c: "foo_L110 pol (AsyncAt pa) (Some fs) (Some 11) ?s =
         map_option (\<lambda>(r, blk', f', out).
        (r, ?s\<lparr>heap := (heap ?s)(fs \<mapsto> FooStackObj f', pa \<mapsto> AsyncObj blk'), stdout := stdout ?s @ out\<rparr>))
       (foo_L110_step pol blk ?f v (Some 11))"
        using assms ne by (intro foo_L110_closed [where bs = bs and b = b and lk = lk]) auto
      show ?thesis using nf True assms
        by (auto simp: foo_def async_begin_def foo_step_def top c split: option.splits)
    next
      case False
      then show ?thesis using nf assms
        by (auto simp: foo_def async_begin_def foo_step_def foo_L110_closed [OF assms(1) assms(3-7)])
    qed
  qed
qed

subsection \<open>What a call may write\<close>

lemma same_shape_refl [simp]: "same_shape s s"
  by (simp add: same_shape_def)

lemma same_shape_trans: "same_shape s t \<Longrightarrow> same_shape t u \<Longrightarrow> same_shape s u"
  by (simp add: same_shape_def)

lemma same_shape_sym: "same_shape s t \<Longrightarrow> same_shape t s"
  by (simp add: same_shape_def)

lemma writes_only_refl [simp]: "writes_only A s s"
  by (simp add: writes_only_def)

lemma writes_only_trans:
  "writes_only A s t \<Longrightarrow> writes_only B t u \<Longrightarrow> A \<subseteq> C \<Longrightarrow> B \<subseteq> C \<Longrightarrow> writes_only C s u"
  unfolding writes_only_def by (metis same_shape_trans subsetD)

lemma writes_only_stdout [simp]: "writes_only A s (stdout_update g t) = writes_only A s t"
  "writes_only A (stdout_update g s) t = writes_only A s t"
  by (simp_all add: writes_only_def same_shape_def)

lemma store_async_writes:
  "store_async pt blk s = Some s' \<Longrightarrow> load_async s pt = Some blk0 \<Longrightarrow> stack blk = stack blk0 \<Longrightarrow>
   writes_only {block_addr pt} s s'"
  by (cases pt) (auto simp: writes_only_def same_shape_def split: option.splits object.splits)

lemma store_async_stdout: "store_async pt blk s = Some s' \<Longrightarrow> stdout s' = stdout s"
  by (cases pt) (auto split: option.splits object.splits)


lemma await_suspend_writes:
  "await_suspend pt l s = Some (r, s') \<Longrightarrow> writes_only {block_addr pt} s s'"
  by (auto simp: await_suspend_def Option.bind_eq_Some_conv intro: store_async_writes)

lemma async_end_writes:
  "async_end pt s = Some (r, s') \<Longrightarrow> writes_only {block_addr pt} s s'"
  by (auto simp: async_end_def Option.bind_eq_Some_conv intro: store_async_writes)

lemma async_init_writes:
  "async_init pt s = Some s' \<Longrightarrow> writes_only {block_addr pt} s s'"
  by (auto simp: async_init_def Option.bind_eq_Some_conv intro: store_async_writes)

lemma store_num_writes:
  "load_foo_stack s a = Some f \<Longrightarrow> store_foo_stack a (f\<lparr>num := n\<rparr>) s = Some s' \<Longrightarrow> writes_only {a} s s'"
  by (auto simp: load_foo_stack_def store_foo_stack_def writes_only_def same_shape_def
      split: option.splits object.splits)

lemma store_int_writes:
  "store_int a v s = Some s' \<Longrightarrow> writes_only {a} s s'"
  by (auto simp: store_int_def writes_only_def same_shape_def split: option.splits object.splits)

lemma bar_L126_writes:
  "bar_L126 pt stk s = Some (r, s') \<Longrightarrow> writes_only {block_addr pt} s s'"
  by (auto simp: bar_L126_def Option.bind_eq_Some_conv puts_def split: if_splits
      dest: await_suspend_writes async_end_writes)

lemma bar_writes:
  assumes "bar pol pt s = Some (r, s')"
  shows "writes_only {block_addr pt} s s'"
proof -
  from assms obtain blk where blk: "load_async s pt = Some blk"
    and c: "(case async_begin pol blk of
       Return r \<Rightarrow> Some (r, s)
     | Goto n \<Rightarrow>
         if n = 0 then bar_L126 pt (stack blk) (puts ''bar start'' s)
         else if n = 126 then bar_L126 pt (stack blk) s
         else None) = Some (r, s')"
    by (auto simp: bar_def Option.bind_eq_Some_conv Let_def)
  show ?thesis
  proof (cases "async_begin pol blk")
    case (Return x)
    with c show ?thesis by simp
  next
    case (Goto n)
    with c show ?thesis
      by (auto simp: puts_def split: if_splits dest: bar_L126_writes)
  qed
qed

lemma foo_L110_writes:
  assumes "foo_L110 pol pt stk ln s = Some (r, s')"
  shows "writes_only (insert (block_addr pt) (set_option stk)) s s'"
proof -
  from assms obtain a rc s1 where a: "stk = Some a" and b: "bar pol (BarPtOf a) s = Some (rc, s1)"
    and rest: "(if rc \<noteq> Inr ASYNC_FINISHED then await_suspend pt 110 s1
     else do {
       f \<leftarrow> load_foo_stack s1 a;
       let s2 = printf ''num in the foo stack is still %d'' (Some (sint (num f))) s1;
       let s3 = printf ''but the local_num is now %d'' (map_option sint ln) s2;
       let s4 = puts ''foo end'' s3;
       async_end pt s4
     }) = Some (r, s')"
    by (auto simp: foo_L110_def Option.bind_eq_Some_conv)
  from bar_writes [OF b] have w1: "writes_only {a} s s1" by simp
  have w2: "writes_only {block_addr pt} s1 s'"
    using rest
    by (auto simp: Option.bind_eq_Some_conv printf_def puts_def Let_def split: if_splits
        dest: await_suspend_writes async_end_writes)
  show ?thesis using w1 w2 a by (auto intro: writes_only_trans)
qed

lemma foo_top_writes:
  assumes "foo_top pol pt stk s = Some (r, s')"
  shows "writes_only (insert (block_addr pt) (set_option stk)) s s'"
proof -
  from assms obtain a f s2 and f' :: foo_stack and s5 where a: "stk = Some a"
    and l: "load_foo_stack (puts ''foo start'' s) a = Some f"
    and st: "store_foo_stack a (f\<lparr>num := 23\<rparr>) (puts ''foo start'' s) = Some s2"
    and i: "async_init (BarPtOf a) (printf ''num in the local stack is %d'' (Some 11)
              (printf ''num in the foo stack is %d'' (Some (sint (num f'))) s2)) = Some s5"
    and rest: "foo_L110 pol pt stk (Some 11) s5 = Some (r, s')"
    by (auto simp: foo_top_def Option.bind_eq_Some_conv Let_def)
  have w1: "writes_only {a} s s2"
    using store_num_writes [OF l st] by (simp add: puts_def)
  have w2: "writes_only {a} s2 s5"
    using async_init_writes [OF i] by (simp add: printf_def)
  have w3: "writes_only (insert (block_addr pt) {a}) s5 s'"
    using foo_L110_writes [OF rest] a by simp
  have "writes_only {a} s s5" using w1 w2 by (rule writes_only_trans) auto
  then show ?thesis using w3 a by (auto intro: writes_only_trans)
qed

lemma foo_writes:
  assumes "foo pol pt s = Some (r, s')"
  shows "writes_only (footprint s (Resume_foo pt)) s s'"
proof -
  from assms obtain blk where blk: "load_async s pt = Some blk"
    and c: "(case async_begin pol blk of
       Return r \<Rightarrow> Some (r, s)
     | Goto n \<Rightarrow>
         if n = 0 then foo_top pol pt (stack blk) s
         else if n = 110 then foo_L110 pol pt (stack blk) None s
         else None) = Some (r, s')"
    by (auto simp: foo_def Option.bind_eq_Some_conv Let_def)
  have fr: "frame_of s pt = stack blk" using blk by (simp add: frame_of_def)
  show ?thesis
  proof (cases "async_begin pol blk")
    case (Return x)
    with c show ?thesis by simp
  next
    case (Goto n)
    with c show ?thesis
      by (auto simp: fr split: if_splits dest: foo_L110_writes foo_top_writes)
  qed
qed

subsection \<open>Instances and shapes\<close>

lemma shape_of_eq_simps [simp]:
  "shape_of obj = AsyncShape p \<longleftrightarrow> (\<exists>blk. obj = AsyncObj blk \<and> stack blk = p)"
  "shape_of obj = FooStackShape p \<longleftrightarrow> (\<exists>f. obj = FooStackObj f \<and> stack (bar_pt f) = p)"
  "shape_of obj = BarStackShape p \<longleftrightarrow> (\<exists>b. obj = BarStackObj b \<and> lock b = p)"
  "shape_of obj = IntShape \<longleftrightarrow> (\<exists>v. obj = IntObj v)"
  by (cases obj; auto)+

lemma bar_instance_iff:
  "bar_instance s pt bs lk \<longleftrightarrow>
     (\<exists>blk b v. load_async s pt = Some blk \<and> stack blk = Some bs \<and>
        heap s bs = Some (BarStackObj b) \<and> lock b = Some lk \<and> heap s lk = Some (IntObj v))"
  by (auto simp: bar_instance_def load_bar_stack_def load_int_def split: option.splits object.splits)

lemma foo_instance_iff:
  "foo_instance s pa fs bs lk \<longleftrightarrow>
     (\<exists>blk f b v. heap s pa = Some (AsyncObj blk) \<and> stack blk = Some fs \<and>
        heap s fs = Some (FooStackObj f) \<and> stack (bar_pt f) = Some bs \<and>
        heap s bs = Some (BarStackObj b) \<and> lock b = Some lk \<and> heap s lk = Some (IntObj v))"
  by (auto simp: foo_instance_def bar_instance_iff split: option.splits object.splits)

lemma foo_instance_shape_iff:
  "foo_instance s pa fs bs lk \<longleftrightarrow>
     map_option shape_of (heap s pa) = Some (AsyncShape (Some fs)) \<and>
     map_option shape_of (heap s fs) = Some (FooStackShape (Some bs)) \<and>
     map_option shape_of (heap s bs) = Some (BarStackShape (Some lk)) \<and>
     map_option shape_of (heap s lk) = Some IntShape"
  unfolding foo_instance_iff by auto

lemma foo_instance_same_shape:
  "same_shape s t \<Longrightarrow> foo_instance s pa fs bs lk \<Longrightarrow> foo_instance t pa fs bs lk"
  by (simp add: foo_instance_shape_iff same_shape_def)

lemma frame_of_same_shape:
  assumes "same_shape s t" shows "frame_of t pt = frame_of s pt"
proof -
  from assms have "map_option shape_of (heap t (block_addr pt)) = map_option shape_of (heap s (block_addr pt))"
    by (simp add: same_shape_def)
  then show ?thesis
    by (cases pt) (auto simp: frame_of_def split: option.splits object.splits)
qed

lemma footprint_same_shape:
  "same_shape s t \<Longrightarrow> footprint t act = footprint s act"
  by (cases act) (simp_all add: frame_of_same_shape)

section \<open>The demo scenario\<close>

text \<open>
  Claim C5. In \<^verbatim>\<open>example_stack\<close> the parent \<^verbatim>\<open>foo\<close> sets its frame field \<^verbatim>\<open>num\<close>
  to 23 and awaits the child \<^verbatim>\<open>bar\<close>, which waits for the flag \<^verbatim>\<open>lock\<close>, 0 at
  first. The first call of \<^verbatim>\<open>foo\<close> returns \<open>SUSPENDED\<close>, the flag still 0 and the
  frame field 23. After \<^verbatim>\<open>lock = 1\<close> the second call completes the child and the
  parent and returns \<open>FINISHED\<close>; the frame field is 23 then too, and both
  \<^verbatim>\<open>printf\<close> calls that read it print 23.
\<close>

theorem demo_scenario:
  "\<exists>s1 s4.
     example_stack_first pol = Some (Inr ASYNC_SUSPENDED, s1) \<and>
     load_int s1 1 = Some 0 \<and>
     map_option num (load_foo_stack s1 3) = Some 23 \<and>
     example_stack_second pol = Some (Inr ASYNC_FINISHED, s4) \<and>
     load_int s4 1 = Some 1 \<and>
     map_option num (load_foo_stack s4 3) = Some 23 \<and>
     map_option phase (load_async s4 (BarPtOf 3)) = Some FINISHED \<and>
     map_option phase (load_async s4 (AsyncAt 0)) = Some FINISHED \<and>
     map_option stdout (example_stack pol) = Some
       [Puts ''Stack Example Start'',
        Puts ''foo start'',
        Printf ''num in the foo stack is %d'' (Some 23),
        Printf ''num in the local stack is %d'' (Some 11),
        Puts ''bar start'',
        Puts ''Hello World!, I am doing a lot of work'',
        Puts ''bar end'',
        Printf ''num in the foo stack is still %d'' (Some 23),
        Printf ''but the local_num is now %d'' None,
        Puts ''foo end'',
        Puts ''Stack Example End'']"
  by (simp add: example_stack_def example_stack_second_def example_stack_first_def
      example_stack_setup_def alloc_def zero_async_def async_init_def work_def store_int_def
      foo_def foo_top_def foo_L110_def bar_def bar_L126_def async_begin_def await_suspend_def
      async_end_def load_foo_stack_def store_foo_stack_def load_bar_stack_def load_int_def
      puts_def printf_def Let_def)

subsection \<open>The transitions case by case\<close>

lemma bar_step_cases:
  assumes "phase blk \<noteq> FINISHED" "resumePoint blk = 0 \<or> resumePoint blk = 126"
  shows "bar_step pol blk v = Some
     (if v = 0 then Inr ASYNC_SUSPENDED else Inr ASYNC_FINISHED,
      if v = 0 then blk\<lparr>resumePoint := 126, phase := SUSPENDED\<rparr> else blk\<lparr>phase := FINISHED\<rparr>,
      (if resumePoint blk = 0 then [Puts ''bar start''] else []) @ (if v = 0 then [] else [Puts ''bar end'']))"
  using assms by (auto simp: bar_step_def bar_L126_step_def)

lemma load_put_async:
  "load_async s pt = Some blk \<Longrightarrow> load_async (s\<lparr>heap := put_async pt blk' (heap s), stdout := out\<rparr>) pt = Some blk'"
  by (cases pt) (auto split: option.splits object.splits)

section \<open>The await of bar\<close>

text \<open>
  Claim C2. \<^verbatim>\<open>bar\<close> reaches its \<^verbatim>\<open>await(*stack->lock)\<close> from the top of its body
  (\<open>resumePoint = 0\<close>, after printing its first line) or by re-entry
  (\<open>resumePoint = 126\<close>). If the flag reads 0 there, the call records the await as
  the new \<open>resumePoint\<close>, sets the phase to \<open>SUSPENDED\<close> and returns \<open>SUSPENDED\<close>
  at once: the statement after the await (\<^verbatim>\<open>puts("bar end")\<close>) does not run in that
  call. If the flag is not 0, the same call goes on to the next statement, prints that
  line, and ends \<open>FINISHED\<close>, without suspending.
\<close>

theorem await_suspends_or_falls_through:
  assumes inst: "bar_instance s pt bs lk"
    and blk: "load_async s pt = Some blk"
    and nf: "phase blk \<noteq> FINISHED"
    and rp: "resumePoint blk = 0 \<or> resumePoint blk = 126"
    and v: "load_int s lk = Some v"
  shows "\<exists>s'. bar pol pt s = Some (if v = 0 then Inr ASYNC_SUSPENDED else Inr ASYNC_FINISHED, s') \<and>
           load_async s' pt =
             Some (if v = 0 then blk\<lparr>resumePoint := 126, phase := SUSPENDED\<rparr>
                   else blk\<lparr>phase := FINISHED\<rparr>) \<and>
           stdout s' = stdout s @ (if resumePoint blk = 0 then [Puts ''bar start''] else [])
                                @ (if v = 0 then [] else [Puts ''bar end''])"
proof -
  from inst blk v obtain b where f: "stack blk = Some bs" "heap s bs = Some (BarStackObj b)"
    "lock b = Some lk" "heap s lk = Some (IntObj v)"
    by (auto simp: bar_instance_iff load_int_def split: option.splits object.splits)
  show ?thesis
    unfolding bar_closed [OF blk f] bar_step_cases [OF nf rp]
    using blk by (simp add: load_put_async)
qed

theorem await_suspends_or_falls_through_witness:
  "bar_instance (sample_state 0) (BarPtOf 3) 2 1 \<and>
   load_async (sample_state 0) (BarPtOf 3) = Some (zero_async\<lparr>stack := Some 2\<rparr>) \<and>
   phase (zero_async\<lparr>stack := Some 2\<rparr>) \<noteq> FINISHED \<and>
   (resumePoint (zero_async\<lparr>stack := Some 2\<rparr>) = 0 \<or> resumePoint (zero_async\<lparr>stack := Some 2\<rparr>) = 126) \<and>
   load_int (sample_state 0) 1 = Some 0 \<and>
   (\<exists>s'. bar NoOpDone (BarPtOf 3) (sample_state 0) = Some (Inr ASYNC_SUSPENDED, s') \<and>
      load_async s' (BarPtOf 3) = Some (zero_async\<lparr>resumePoint := 126, phase := SUSPENDED, stack := Some 2\<rparr>) \<and>
      stdout s' = [Puts ''bar start''])"
proof -
  have h1: "bar_instance (sample_state 0) (BarPtOf 3) 2 1"
    by (simp add: bar_instance_def sample_state_def load_bar_stack_def load_int_def zero_async_def)
  have h2: "load_async (sample_state 0) (BarPtOf 3) = Some (zero_async\<lparr>stack := Some 2\<rparr>)"
    by (simp add: sample_state_def)
  have h3: "phase (zero_async\<lparr>stack := Some 2\<rparr>) \<noteq> FINISHED"
    by (simp add: zero_async_def)
  have h4: "resumePoint (zero_async\<lparr>stack := Some 2\<rparr>) = 0 \<or> resumePoint (zero_async\<lparr>stack := Some 2\<rparr>) = 126"
    by (simp add: zero_async_def)
  have h5: "load_int (sample_state 0) 1 = Some 0"
    by (simp add: sample_state_def load_int_def)
  have st: "stdout (sample_state 0) = []"
    by (simp add: sample_state_def)
  from await_suspends_or_falls_through [OF h1 h2 h3 h4 h5, of NoOpDone]
  show ?thesis using h1 h2 h3 h4 h5 st by (simp add: zero_async_def)
qed

subsection \<open>What a call of bar leaves alone\<close>

lemma writes_onlyD: "writes_only A s t \<Longrightarrow> a \<notin> A \<Longrightarrow> heap t a = heap s a"
  by (simp add: writes_only_def)

lemma writes_only_shape: "writes_only A s t \<Longrightarrow> same_shape s t"
  by (simp add: writes_only_def)

lemma same_shape_stack:
  assumes "same_shape s t" "load_async s pt = Some blk"
  shows "map_option stack (load_async t pt) = Some (stack blk)"
proof -
  from assms(1) have "map_option shape_of (heap t (block_addr pt)) = map_option shape_of (heap s (block_addr pt))"
    by (simp add: same_shape_def)
  with assms(2) show ?thesis
    by (cases pt) (auto split: option.splits object.splits)
qed

lemma bar_num_unchanged:
  assumes "bar pol pt s = Some (r, s')"
  shows "map_option num (load_foo_stack s' fs) = map_option num (load_foo_stack s fs)"
proof (cases "fs = block_addr pt")
  case False
  with writes_onlyD [OF bar_writes [OF assms], of fs] show ?thesis
    by (simp add: load_foo_stack_def)
next
  case True
  from assms obtain blk where blk: "load_async s pt = Some blk"
    by (auto simp: bar_def Option.bind_eq_Some_conv)
  show ?thesis
  proof (cases pt)
    case (AsyncAt a)
    with blk True have "\<exists>b. heap s fs = Some (AsyncObj b)"
      by (auto split: option.splits object.splits)
    moreover from writes_only_shape [OF bar_writes [OF assms]]
    have "map_option shape_of (heap s' fs) = map_option shape_of (heap s fs)"
      by (simp add: same_shape_def)
    ultimately show ?thesis by (auto simp: load_foo_stack_def)
  next
    case (BarPtOf a)
    with blk True obtain f where f: "heap s fs = Some (FooStackObj f)"
      by (auto split: option.splits object.splits)
    have "\<exists>f'. heap s' fs = Some (FooStackObj f') \<and> num f' = num f"
      using assms BarPtOf True f
      by (auto simp: bar_def bar_L126_def await_suspend_def async_end_def puts_def Let_def
          Option.bind_eq_Some_conv split: if_splits dispatch.splits)
    with f show ?thesis by (auto simp: load_foo_stack_def)
  qed
qed

section \<open>The frame of bar\<close>

text \<open>
  Claim C10. A call of \<^verbatim>\<open>bar\<close> on a well-formed instance changes nothing but its
  own Control Block: the flag \<^verbatim>\<open>*stack->lock\<close> and the \<^verbatim>\<open>struct bar_stack\<close> that
  holds the pointer to it are as before, so is every object other than the one the
  Control Block lives in, the field \<^verbatim>\<open>num\<close> of every \<^verbatim>\<open>struct foo_stack\<close> (also of
  the one that embeds the Control Block), and the frame reference of the Control
  Block. On a Control Block that is not \<open>FINISHED\<close>, the call returns \<open>SUSPENDED\<close>
  when the flag reads 0 and \<open>FINISHED\<close> when it does not.
\<close>

theorem bar_writes_only_its_control_block:
  assumes inst: "bar_instance s pt bs lk"
    and blk: "load_async s pt = Some blk"
    and call: "bar pol pt s = Some (r, s')"
  shows "heap s' lk = heap s lk \<and>
         heap s' bs = heap s bs \<and>
         (\<forall>a. a \<noteq> block_addr pt \<longrightarrow> heap s' a = heap s a) \<and>
         (\<forall>fs. map_option num (load_foo_stack s' fs) = map_option num (load_foo_stack s fs)) \<and>
         map_option stack (load_async s' pt) = Some (stack blk) \<and>
         (phase blk \<noteq> FINISHED \<longrightarrow>
            (load_int s lk = Some 0 \<longrightarrow> r = Inr ASYNC_SUSPENDED) \<and>
            (load_int s lk \<noteq> Some 0 \<longrightarrow> r = Inr ASYNC_FINISHED))"
proof -
  from inst blk obtain b v where f: "stack blk = Some bs" "heap s bs = Some (BarStackObj b)"
    "lock b = Some lk" "heap s lk = Some (IntObj v)"
    by (auto simp: bar_instance_iff)
  note w = bar_writes [OF call]
  have ne: "lk \<noteq> block_addr pt" "bs \<noteq> block_addr pt"
    using blk f by (cases pt; auto split: option.splits object.splits)+
  have 1: "heap s' lk = heap s lk" "heap s' bs = heap s bs"
    using writes_onlyD [OF w] ne by simp_all
  have 3: "\<forall>a. a \<noteq> block_addr pt \<longrightarrow> heap s' a = heap s a"
    using writes_onlyD [OF w] by simp
  have 5: "map_option stack (load_async s' pt) = Some (stack blk)"
    using same_shape_stack [OF writes_only_shape [OF w] blk] .
  have 6: "phase blk \<noteq> FINISHED \<longrightarrow>
            (load_int s lk = Some 0 \<longrightarrow> r = Inr ASYNC_SUSPENDED) \<and>
            (load_int s lk \<noteq> Some 0 \<longrightarrow> r = Inr ASYNC_FINISHED)"
    using call f unfolding bar_closed [OF blk f]
    by (auto simp: bar_step_def bar_L126_step_def load_int_def split: if_splits)
  show ?thesis using 1 3 5 6 bar_num_unchanged [OF call] by blast
qed

theorem bar_writes_only_its_control_block_witness:
  "\<exists>s'. bar_instance (sample_state 0) (BarPtOf 3) 2 1 \<and>
     load_async (sample_state 0) (BarPtOf 3) = Some (zero_async\<lparr>stack := Some 2\<rparr>) \<and>
     bar NoOpDone (BarPtOf 3) (sample_state 0) = Some (Inr ASYNC_SUSPENDED, s') \<and>
     heap s' 1 = Some (IntObj 0) \<and>
     heap s' 2 = Some (BarStackObj \<lparr>lock = Some 1\<rparr>) \<and>
     heap s' 0 = heap (sample_state 0) 0 \<and>
     map_option num (load_foo_stack s' 3) = Some 0 \<and>
     map_option stack (load_async s' (BarPtOf 3)) = Some (Some 2)"
proof -
  have h1: "bar_instance (sample_state 0) (BarPtOf 3) 2 1"
    by (simp add: bar_instance_def sample_state_def load_bar_stack_def load_int_def zero_async_def)
  have h2: "load_async (sample_state 0) (BarPtOf 3) = Some (zero_async\<lparr>stack := Some 2\<rparr>)"
    by (simp add: sample_state_def)
  obtain s' where h3: "bar NoOpDone (BarPtOf 3) (sample_state 0) = Some (Inr ASYNC_SUSPENDED, s')"
    by (simp add: sample_state_def bar_def bar_L126_def async_begin_def await_suspend_def
        load_bar_stack_def load_int_def puts_def zero_async_def)
  have old: "heap (sample_state 0) 1 = Some (IntObj 0)"
    "heap (sample_state 0) 2 = Some (BarStackObj \<lparr>lock = Some 1\<rparr>)"
    "map_option num (load_foo_stack (sample_state 0) 3) = Some 0"
    by (simp_all add: sample_state_def load_foo_stack_def)
  note t = bar_writes_only_its_control_block [OF h1 h2 h3]
  from t have c1: "heap s' 1 = heap (sample_state 0) 1" by blast
  from t have c2: "heap s' 2 = heap (sample_state 0) 2" by blast
  from t have "\<forall>a. a \<noteq> block_addr (BarPtOf 3) \<longrightarrow> heap s' a = heap (sample_state 0) a" by blast
  then have c3: "heap s' 0 = heap (sample_state 0) 0" by simp
  from t have "\<forall>fs. map_option num (load_foo_stack s' fs) = map_option num (load_foo_stack (sample_state 0) fs)"
    by blast
  then have c4: "map_option num (load_foo_stack s' 3) = Some 0" using old(3) by simp
  from t have c5: "map_option stack (load_async s' (BarPtOf 3)) = Some (stack (zero_async\<lparr>stack := Some 2\<rparr>))"
    by blast
  show ?thesis
    using h1 h2 h3 c1 c2 c3 c4 c5 old(1,2) by (intro exI [of _ s']) simp
qed

subsection \<open>The terminal phase\<close>








lemma foo_on_finished: "finished_at s pt \<Longrightarrow> foo pol pt s = Some (misuse_outcome pol, s)"
  by (auto simp: finished_at_def foo_def async_begin_def split: option.splits)




section \<open>FINISHED is terminal\<close>



subsection \<open>The transitions are defined at the resume points of the bodies\<close>

lemma bar_step_defined:
  assumes "phase blk = FINISHED \<or> resumePoint blk = 0 \<or> resumePoint blk = 126"
  shows "\<exists>r blk' out. bar_step pol blk v = Some (r, blk', out) \<and> length out \<le> 2"
  using assms by (auto simp: bar_step_def bar_L126_step_def)

lemma foo_L110_step_defined:
  assumes "phase (bar_pt f) = FINISHED \<or> resumePoint (bar_pt f) = 0 \<or> resumePoint (bar_pt f) = 126"
  shows "\<exists>r blk' f' out. foo_L110_step pol blk f v ln = Some (r, blk', f', out) \<and> length out \<le> 5"
proof -
  from bar_step_defined [OF assms, of pol v]
  obtain r cb out where "bar_step pol (bar_pt f) v = Some (r, cb, out)" "length out \<le> 2"
    by blast
  then show ?thesis by (auto simp: foo_L110_step_def)
qed

lemma foo_step_defined:
  assumes "phase blk = FINISHED \<or> resumePoint blk = 0 \<or>
     (resumePoint blk = 110 \<and>
      (phase (bar_pt f) = FINISHED \<or> resumePoint (bar_pt f) = 0 \<or> resumePoint (bar_pt f) = 126))"
  shows "\<exists>r blk' f' out. foo_step pol blk f v = Some (r, blk', f', out) \<and> length out \<le> 8"
proof -
  let ?f = "f\<lparr>num := 23, bar_pt := (bar_pt f)\<lparr>resumePoint := 0, phase := NOT_STARTED\<rparr>\<rparr>"
  consider "phase blk = FINISHED" | "phase blk \<noteq> FINISHED" "resumePoint blk = 0"
    | "phase blk \<noteq> FINISHED" "resumePoint blk = 110"
      "phase (bar_pt f) = FINISHED \<or> resumePoint (bar_pt f) = 0 \<or> resumePoint (bar_pt f) = 126"
    using assms by auto
  then show ?thesis
  proof cases
    case 1
    then show ?thesis by (simp add: foo_step_def)
  next
    case 2
    have "phase (bar_pt ?f) = FINISHED \<or> resumePoint (bar_pt ?f) = 0 \<or> resumePoint (bar_pt ?f) = 126"
      by simp
    from foo_L110_step_defined [OF this, of pol blk v "Some 11"]
    obtain r blk' f' out where "foo_L110_step pol blk ?f v (Some 11) = Some (r, blk', f', out)"
      "length out \<le> 5" by blast
    with 2 show ?thesis by (simp add: foo_step_def)
  next
    case 3
    from foo_L110_step_defined [OF 3(3), of pol blk v None]
    obtain r blk' f' out where "foo_L110_step pol blk f v None = Some (r, blk', f', out)"
      "length out \<le> 5" by blast
    with 3 show ?thesis by (simp add: foo_step_def)
  qed
qed

section \<open>Every resume call returns\<close>

text \<open>
  Claim C8. A resume call on a well-formed instance whose Control Block is
  \<open>FINISHED\<close> or holds a resume point of its body (0 or 110 for \<^verbatim>\<open>foo\<close>, and then
  the same for its child; 0 or 126 for \<^verbatim>\<open>bar\<close>) returns: the call has a value and
  a final state, it does not fault and there is nothing in it that could loop. The
  work it does is bounded by the straight-line body: a call of \<^verbatim>\<open>foo\<close> prints at
  most the 8 lines of one full run of parent and child, a call of \<^verbatim>\<open>bar\<close> at most
  its 2.
\<close>

theorem resume_returns_after_bounded_work:
  "(foo_instance s pa fs bs lk \<and> load_async s (AsyncAt pa) = Some blk \<and>
    load_async s (BarPtOf fs) = Some cb \<and>
    (phase blk = FINISHED \<or> resumePoint blk = 0 \<or>
     (resumePoint blk = 110 \<and> (phase cb = FINISHED \<or> resumePoint cb = 0 \<or> resumePoint cb = 126)))
    \<longrightarrow> (\<exists>r s' out. foo pol (AsyncAt pa) s = Some (r, s') \<and>
            stdout s' = stdout s @ out \<and> length out \<le> 8)) \<and>
   (bar_instance s pt bs' lk' \<and> load_async s pt = Some bblk \<and>
    (phase bblk = FINISHED \<or> resumePoint bblk = 0 \<or> resumePoint bblk = 126)
    \<longrightarrow> (\<exists>r s' out. bar pol pt s = Some (r, s') \<and>
            stdout s' = stdout s @ out \<and> length out \<le> 2))"
proof (intro conjI impI; elim conjE)
  assume inst: "foo_instance s pa fs bs lk" and blk: "load_async s (AsyncAt pa) = Some blk"
    and cb: "load_async s (BarPtOf fs) = Some cb"
    and ok: "phase blk = FINISHED \<or> resumePoint blk = 0 \<or>
     (resumePoint blk = 110 \<and> (phase cb = FINISHED \<or> resumePoint cb = 0 \<or> resumePoint cb = 126))"
  from inst blk cb obtain f b v where f: "heap s pa = Some (AsyncObj blk)" "stack blk = Some fs"
    "heap s fs = Some (FooStackObj f)" "stack (bar_pt f) = Some bs"
    "heap s bs = Some (BarStackObj b)" "lock b = Some lk" "heap s lk = Some (IntObj v)"
    and cbf: "cb = bar_pt f"
    by (auto simp: foo_instance_iff)
  from foo_step_defined [of blk f pol v] ok cbf
  obtain r blk' f' out where "foo_step pol blk f v = Some (r, blk', f', out)" "length out \<le> 8"
    by blast
  then show "\<exists>r s' out. foo pol (AsyncAt pa) s = Some (r, s') \<and>
            stdout s' = stdout s @ out \<and> length out \<le> 8"
    unfolding foo_closed [OF f] by simp
next
  assume inst: "bar_instance s pt bs' lk'" and blk: "load_async s pt = Some bblk"
    and ok: "phase bblk = FINISHED \<or> resumePoint bblk = 0 \<or> resumePoint bblk = 126"
  from inst blk obtain b v where f: "stack bblk = Some bs'" "heap s bs' = Some (BarStackObj b)"
    "lock b = Some lk'" "heap s lk' = Some (IntObj v)"
    by (auto simp: bar_instance_iff)
  from bar_step_defined [OF ok, of pol v]
  obtain r blk' out where "bar_step pol bblk v = Some (r, blk', out)" "length out \<le> 2"
    by blast
  then show "\<exists>r s' out. bar pol pt s = Some (r, s') \<and>
            stdout s' = stdout s @ out \<and> length out \<le> 2"
    unfolding bar_closed [OF blk f] by simp
qed

theorem resume_returns_after_bounded_work_witness:
  "foo_instance (sample_state 1) 0 3 2 1 \<and>
   load_async (sample_state 1) (AsyncAt 0) = Some (zero_async\<lparr>stack := Some 3\<rparr>) \<and>
   load_async (sample_state 1) (BarPtOf 3) = Some (zero_async\<lparr>stack := Some 2\<rparr>) \<and>
   resumePoint (zero_async\<lparr>stack := Some 3\<rparr>) = 0 \<and>
   (\<exists>r s' out. foo NoOpDone (AsyncAt 0) (sample_state 1) = Some (r, s') \<and>
      stdout s' = stdout (sample_state 1) @ out \<and> length out \<le> 8) \<and>
   bar_instance (sample_state 1) (BarPtOf 13) 12 11 \<and>
   load_async (sample_state 1) (BarPtOf 13) = Some (zero_async\<lparr>stack := Some 12\<rparr>) \<and>
   resumePoint (zero_async\<lparr>stack := Some 12\<rparr>) = 0 \<and>
   (\<exists>r s' out. bar NoOpDone (BarPtOf 13) (sample_state 1) = Some (r, s') \<and>
      stdout s' = stdout (sample_state 1) @ out \<and> length out \<le> 2)"
proof -
  have h1: "foo_instance (sample_state 1) 0 3 2 1"
    by (simp add: foo_instance_def bar_instance_def sample_state_def load_bar_stack_def
        load_int_def zero_async_def)
  have h2: "load_async (sample_state 1) (AsyncAt 0) = Some (zero_async\<lparr>stack := Some 3\<rparr>)"
    by (simp add: sample_state_def)
  have h3: "load_async (sample_state 1) (BarPtOf 3) = Some (zero_async\<lparr>stack := Some 2\<rparr>)"
    by (simp add: sample_state_def)
  have h4: "resumePoint (zero_async\<lparr>stack := Some 3\<rparr>) = 0"
    by (simp add: zero_async_def)
  have h5: "bar_instance (sample_state 1) (BarPtOf 13) 12 11"
    by (simp add: bar_instance_def sample_state_def load_bar_stack_def load_int_def zero_async_def)
  have h6: "load_async (sample_state 1) (BarPtOf 13) = Some (zero_async\<lparr>stack := Some 12\<rparr>)"
    by (simp add: sample_state_def)
  have h7: "resumePoint (zero_async\<lparr>stack := Some 12\<rparr>) = 0"
    by (simp add: zero_async_def)
  note t = resume_returns_after_bounded_work [of "sample_state 1" 0 3 2 1
      "zero_async\<lparr>stack := Some 3\<rparr>" "zero_async\<lparr>stack := Some 2\<rparr>" NoOpDone
      "BarPtOf 13" 12 11 "zero_async\<lparr>stack := Some 12\<rparr>"]
  from t h1 h2 h3 h4
  have c1: "\<exists>r s' out. foo NoOpDone (AsyncAt 0) (sample_state 1) = Some (r, s') \<and>
      stdout s' = stdout (sample_state 1) @ out \<and> length out \<le> 8"
    by blast
  from t h5 h6 h7
  have c2: "\<exists>r s' out. bar NoOpDone (BarPtOf 13) (sample_state 1) = Some (r, s') \<and>
      stdout s' = stdout (sample_state 1) @ out \<and> length out \<le> 2"
    by blast
  from h1 h2 h3 h4 h5 h6 h7 c1 c2 show ?thesis by blast
qed

subsection \<open>The await of foo\<close>

lemma foo_L110_with_child:
  assumes f: "heap s pa = Some (AsyncObj blk)" "heap s fs = Some (FooStackObj f)"
    "stack (bar_pt f) = Some bs" "heap s bs = Some (BarStackObj b)" "lock b = Some lk"
    "heap s lk = Some (IntObj v)"
    and st: "bar_step pol (bar_pt f) v = Some (rc, cb', out)"
  shows "bar pol (BarPtOf fs) s =
           Some (rc, s\<lparr>heap := (heap s)(fs \<mapsto> FooStackObj (f\<lparr>bar_pt := cb'\<rparr>)), stdout := stdout s @ out\<rparr>)"
    and "foo_L110 pol (AsyncAt pa) (Some fs) ln s =
           Some (if rc = Inr ASYNC_FINISHED then Inr ASYNC_FINISHED else Inr ASYNC_SUSPENDED,
             s\<lparr>heap := (heap s)(fs \<mapsto> FooStackObj (f\<lparr>bar_pt := cb'\<rparr>),
                      pa \<mapsto> AsyncObj (if rc = Inr ASYNC_FINISHED then blk\<lparr>phase := FINISHED\<rparr>
                                      else blk\<lparr>resumePoint := 110, phase := SUSPENDED\<rparr>)),
               stdout := stdout s @ out @
                 (if rc = Inr ASYNC_FINISHED
                  then [Printf ''num in the foo stack is still %d'' (Some (sint (num f))),
                        Printf ''but the local_num is now %d'' (map_option sint ln),
                        Puts ''foo end'']
                  else [])\<rparr>)"
proof -
  have ld: "load_async s (BarPtOf fs) = Some (bar_pt f)" using f by simp
  show "bar pol (BarPtOf fs) s =
           Some (rc, s\<lparr>heap := (heap s)(fs \<mapsto> FooStackObj (f\<lparr>bar_pt := cb'\<rparr>)), stdout := stdout s @ out\<rparr>)"
    unfolding bar_closed [OF ld f(3-6)] using st f by simp
  show "foo_L110 pol (AsyncAt pa) (Some fs) ln s =
           Some (if rc = Inr ASYNC_FINISHED then Inr ASYNC_FINISHED else Inr ASYNC_SUSPENDED,
             s\<lparr>heap := (heap s)(fs \<mapsto> FooStackObj (f\<lparr>bar_pt := cb'\<rparr>),
                      pa \<mapsto> AsyncObj (if rc = Inr ASYNC_FINISHED then blk\<lparr>phase := FINISHED\<rparr>
                                      else blk\<lparr>resumePoint := 110, phase := SUSPENDED\<rparr>)),
               stdout := stdout s @ out @
                 (if rc = Inr ASYNC_FINISHED
                  then [Printf ''num in the foo stack is still %d'' (Some (sint (num f))),
                        Printf ''but the local_num is now %d'' (map_option sint ln),
                        Puts ''foo end'']
                  else [])\<rparr>)"
    unfolding foo_L110_closed [OF f] using st by (simp add: foo_L110_step_def)
qed

lemma foo_reentry:
  assumes "load_async s (AsyncAt pa) = Some blk" "phase blk \<noteq> FINISHED" "resumePoint blk = 110"
  shows "foo pol (AsyncAt pa) s = foo_L110 pol (AsyncAt pa) (stack blk) None s"
  using assms by (simp add: foo_def async_begin_def)

section \<open>A parent awaiting its child\<close>

text \<open>
  Claim C3. \<open>foo_L110\<close> is the body of \<^verbatim>\<open>foo\<close> from its
  \<^verbatim>\<open>await(bar(&stack->bar_pt))\<close> on, whichever way control came there. On a
  well-formed instance whose child is not \<open>FINISHED\<close>, the await calls the child's
  resume \<^verbatim>\<open>bar\<close> on the child's own Control Block, in the state as it is: the
  parent returns \<open>SUSPENDED\<close> if and only if that call returned \<open>SUSPENDED\<close> (and
  \<open>FINISHED\<close> if and only if it returned \<open>FINISHED\<close>), the child's Control Block is
  afterwards what the child's call made of it, and a suspending parent records the
  await (110) as its resume point and prints nothing more. A parent resumed with
  that resume point runs exactly this await again: it does not start from the top.
\<close>

theorem parent_suspends_iff_child_suspended:
  assumes inst: "foo_instance s pa fs bs lk"
    and blk: "load_async s (AsyncAt pa) = Some blk"
    and cb: "load_async s (BarPtOf fs) = Some cb"
    and cnf: "phase cb \<noteq> FINISHED"
    and crp: "resumePoint cb = 0 \<or> resumePoint cb = 126"
  shows "\<exists>rc s1 r s2.
      bar pol (BarPtOf fs) s = Some (rc, s1) \<and>
      foo_L110 pol (AsyncAt pa) (Some fs) ln s = Some (r, s2) \<and>
      (r = Inr ASYNC_SUSPENDED \<longleftrightarrow> rc = Inr ASYNC_SUSPENDED) \<and>
      (r = Inr ASYNC_FINISHED \<longleftrightarrow> rc = Inr ASYNC_FINISHED) \<and>
      load_async s2 (BarPtOf fs) = load_async s1 (BarPtOf fs) \<and>
      (r = Inr ASYNC_SUSPENDED \<longrightarrow>
         load_async s2 (AsyncAt pa) = Some (blk\<lparr>resumePoint := 110, phase := SUSPENDED\<rparr>) \<and>
         stdout s2 = stdout s1) \<and>
      (phase blk = SUSPENDED \<and> resumePoint blk = 110 \<longrightarrow>
         foo pol (AsyncAt pa) s = foo_L110 pol (AsyncAt pa) (Some fs) None s)"
proof -
  from inst blk cb obtain f b v where f: "heap s pa = Some (AsyncObj blk)" "stack blk = Some fs"
    "heap s fs = Some (FooStackObj f)" "stack (bar_pt f) = Some bs"
    "heap s bs = Some (BarStackObj b)" "lock b = Some lk" "heap s lk = Some (IntObj v)"
    and cbf: "cb = bar_pt f"
    by (auto simp: foo_instance_iff)
  have ne: "pa \<noteq> fs" using f by auto
  let ?rc = "if v = 0 then Inr ASYNC_SUSPENDED else Inr ASYNC_FINISHED :: result"
  from bar_step_cases [OF cnf crp, of pol v] cbf
  obtain cb' out where st: "bar_step pol (bar_pt f) v = Some (?rc, cb', out)"
    by auto
  note c = foo_L110_with_child [OF f(1) f(3-7) st]
  have re: "phase blk = SUSPENDED \<and> resumePoint blk = 110 \<longrightarrow>
         foo pol (AsyncAt pa) s = foo_L110 pol (AsyncAt pa) (Some fs) None s"
    using foo_reentry [OF blk, of pol] f(2) by auto
  show ?thesis
    using ne re by (cases "v = 0") (auto simp: c)
qed


theorem parent_suspends_iff_child_suspended_witness:
  "foo_instance (sample_state 0) 0 3 2 1 \<and>
   load_async (sample_state 0) (AsyncAt 0) = Some (zero_async\<lparr>stack := Some 3\<rparr>) \<and>
   load_async (sample_state 0) (BarPtOf 3) = Some (zero_async\<lparr>stack := Some 2\<rparr>) \<and>
   phase (zero_async\<lparr>stack := Some 2\<rparr>) \<noteq> FINISHED \<and>
   resumePoint (zero_async\<lparr>stack := Some 2\<rparr>) = 0 \<and>
   (\<exists>s1 s2.
      bar NoOpDone (BarPtOf 3) (sample_state 0) = Some (Inr ASYNC_SUSPENDED, s1) \<and>
      foo_L110 NoOpDone (AsyncAt 0) (Some 3) None (sample_state 0) = Some (Inr ASYNC_SUSPENDED, s2) \<and>
      load_async s2 (BarPtOf 3) = load_async s1 (BarPtOf 3) \<and>
      load_async s2 (AsyncAt 0) =
        Some (zero_async\<lparr>stack := Some 3, resumePoint := 110, phase := SUSPENDED\<rparr>) \<and>
      stdout s2 = stdout s1)"
proof -
  have h1: "foo_instance (sample_state 0) 0 3 2 1"
    by (simp add: foo_instance_def bar_instance_def sample_state_def load_bar_stack_def
        load_int_def zero_async_def)
  have h2: "load_async (sample_state 0) (AsyncAt 0) = Some (zero_async\<lparr>stack := Some 3\<rparr>)"
    by (simp add: sample_state_def)
  have h3: "load_async (sample_state 0) (BarPtOf 3) = Some (zero_async\<lparr>stack := Some 2\<rparr>)"
    by (simp add: sample_state_def)
  have h4: "phase (zero_async\<lparr>stack := Some 2\<rparr>) \<noteq> FINISHED"
    by (simp add: zero_async_def)
  have h5: "resumePoint (zero_async\<lparr>stack := Some 2\<rparr>) = 0"
    by (simp add: zero_async_def)
  have b: "\<exists>s1. bar NoOpDone (BarPtOf 3) (sample_state 0) = Some (Inr ASYNC_SUSPENDED, s1)"
    by (simp add: sample_state_def bar_def bar_L126_def async_begin_def await_suspend_def
        load_bar_stack_def load_int_def puts_def zero_async_def)
  from parent_suspends_iff_child_suspended [OF h1 h2 h3 h4 disjI1 [OF h5], of NoOpDone None] b
  have "\<exists>s1 s2.
      bar NoOpDone (BarPtOf 3) (sample_state 0) = Some (Inr ASYNC_SUSPENDED, s1) \<and>
      foo_L110 NoOpDone (AsyncAt 0) (Some 3) None (sample_state 0) = Some (Inr ASYNC_SUSPENDED, s2) \<and>
      load_async s2 (BarPtOf 3) = load_async s1 (BarPtOf 3) \<and>
      load_async s2 (AsyncAt 0) =
        Some (zero_async\<lparr>stack := Some 3, resumePoint := 110, phase := SUSPENDED\<rparr>) \<and>
      stdout s2 = stdout s1"
    by auto
  with h1 h2 h3 h4 h5 show ?thesis by blast
qed

lemma foo_reentry_child:
  assumes inst: "foo_instance s pa fs bs lk"
    and blk: "load_async s (AsyncAt pa) = Some blk"
    and nf: "phase blk \<noteq> FINISHED"
    and rp: "resumePoint blk = 110"
    and cb: "load_async s (BarPtOf fs) = Some cb"
    and cok: "phase cb = FINISHED \<or> resumePoint cb = 0 \<or> resumePoint cb = 126"
  shows "\<exists>r s' rc s1 cb'.
      foo pol (AsyncAt pa) s = Some (r, s') \<and>
      bar pol (BarPtOf fs) s = Some (rc, s1) \<and>
      load_async s1 (BarPtOf fs) = Some cb' \<and>
      load_async s' (BarPtOf fs) = Some cb' \<and>
      (phase cb \<noteq> NOT_STARTED \<longrightarrow> phase cb' \<noteq> NOT_STARTED) \<and>
      (resumePoint cb = 126 \<longrightarrow> resumePoint cb' = 126)"
proof -
  from inst blk cb obtain f b v where f: "heap s pa = Some (AsyncObj blk)" "stack blk = Some fs"
    "heap s fs = Some (FooStackObj f)" "stack (bar_pt f) = Some bs"
    "heap s bs = Some (BarStackObj b)" "lock b = Some lk" "heap s lk = Some (IntObj v)"
    and cbf: "cb = bar_pt f"
    by (auto simp: foo_instance_iff)
  have ne: "pa \<noteq> fs" using f by auto
  from bar_step_defined [OF cok, of pol v] cbf
  obtain rc cb' out where st: "bar_step pol (bar_pt f) v = Some (rc, cb', out)"
    by auto
  have keep: "(phase cb \<noteq> NOT_STARTED \<longrightarrow> phase cb' \<noteq> NOT_STARTED) \<and>
      (resumePoint cb = 126 \<longrightarrow> resumePoint cb' = 126)"
    using st cbf by (auto simp: bar_step_def bar_L126_step_def split: if_splits)
  note c = foo_L110_with_child [OF f(1) f(3-7) st]
  show ?thesis
    unfolding foo_reentry [OF blk nf rp] f(2) c using ne keep by auto
qed

lemma foo_top_inits_child:
  assumes inst: "foo_instance s pa fs bs lk"
    and blk: "load_async s (AsyncAt pa) = Some blk"
    and nf: "phase blk \<noteq> FINISHED"
    and rp: "resumePoint blk = 0"
    and cb: "load_async s (BarPtOf fs) = Some cb"
    and v: "load_int s lk = Some v"
  shows "\<exists>r s' si rc s1.
      foo pol (AsyncAt pa) s = Some (r, s') \<and>
      load_async s' (BarPtOf fs) =
        Some (if v = 0 then cb\<lparr>resumePoint := 126, phase := SUSPENDED\<rparr>
              else cb\<lparr>resumePoint := 0, phase := FINISHED\<rparr>) \<and>
      async_init (BarPtOf fs) s = Some si \<and>
      load_async si (BarPtOf fs) = Some (cb\<lparr>resumePoint := 0, phase := NOT_STARTED\<rparr>) \<and>
      bar pol (BarPtOf fs) si = Some (rc, s1) \<and>
      load_async s' (BarPtOf fs) = load_async s1 (BarPtOf fs)"
proof -
  from inst blk cb v obtain f b where f: "heap s pa = Some (AsyncObj blk)" "stack blk = Some fs"
    "heap s fs = Some (FooStackObj f)" "stack (bar_pt f) = Some bs"
    "heap s bs = Some (BarStackObj b)" "lock b = Some lk" "heap s lk = Some (IntObj v)"
    and cbf: "cb = bar_pt f"
    by (auto simp: foo_instance_iff load_int_def)
  have ne: "pa \<noteq> fs" "fs \<noteq> bs" "fs \<noteq> lk" using f by auto
  let ?init = "cb\<lparr>resumePoint := 0, phase := NOT_STARTED\<rparr>"
  let ?cb = "if v = 0 then cb\<lparr>resumePoint := 126, phase := SUSPENDED\<rparr>
              else cb\<lparr>resumePoint := 0, phase := FINISHED\<rparr>"
  let ?si = "s\<lparr>heap := (heap s)(fs \<mapsto> FooStackObj (f\<lparr>bar_pt := ?init\<rparr>))\<rparr>"
  have i: "async_init (BarPtOf fs) s = Some ?si"
    using f cbf by (simp add: async_init_def)
  have li: "load_async ?si (BarPtOf fs) = Some ?init"
    by simp
  have st: "stack ?init = Some bs" using f(4) cbf by simp
  have hb: "heap ?si bs = Some (BarStackObj b)" using f(5) ne by simp
  have hl: "heap ?si lk = Some (IntObj v)" using f(7) ne by simp
  have bi: "\<exists>rc s1. bar pol (BarPtOf fs) ?si = Some (rc, s1) \<and> load_async s1 (BarPtOf fs) = Some ?cb"
    unfolding bar_closed [OF li st hb f(6) hl]
    by (auto simp: bar_step_def bar_L126_step_def)
  have fo: "\<exists>r s'. foo pol (AsyncAt pa) s = Some (r, s') \<and> load_async s' (BarPtOf fs) = Some ?cb"
    unfolding foo_closed [OF f] using nf rp ne cbf
    by (auto simp: foo_step_def foo_L110_step_def bar_step_def bar_L126_step_def)
  from i li bi fo show ?thesis by (metis (no_types, lifting))
qed

section \<open>The child is initialised once per run of foo\<close>

text \<open>
  Claim C9. A run of \<^verbatim>\<open>foo\<close> starts with a call that enters at the top of the body
  and goes on with calls that re-enter at the await. The call from the top executes
  \<^verbatim>\<open>async_init(&stack->bar_pt)\<close>: whatever the child's Control Block \<open>cb\<close> held
  before (a finished child of an earlier run, say), the call leaves it as the
  child's resume leaves a freshly initialised block, suspended at its await when
  the flag is 0 and finished from the top otherwise. A call with the resume point of
  the await (110) is dispatched past that statement: it leaves the child's Control
  Block exactly as the child's own resume call, made on the state the parent was
  entered in, leaves it. The block is not set back to \<open>NOT_STARTED\<close>, and a child
  suspended at its await (126) keeps that resume point. So the child is initialised
  in the first call of a run and in no other.
\<close>

theorem child_initialised_at_top_only:
  assumes inst: "foo_instance s pa fs bs lk"
    and blk: "load_async s (AsyncAt pa) = Some blk"
    and nf: "phase blk \<noteq> FINISHED"
    and cb: "load_async s (BarPtOf fs) = Some cb"
    and v: "load_int s lk = Some v"
  shows "(resumePoint blk = 0 \<longrightarrow>
           (\<exists>r s' si rc s1.
              foo pol (AsyncAt pa) s = Some (r, s') \<and>
              load_async s' (BarPtOf fs) =
                Some (if v = 0 then cb\<lparr>resumePoint := 126, phase := SUSPENDED\<rparr>
                      else cb\<lparr>resumePoint := 0, phase := FINISHED\<rparr>) \<and>
              async_init (BarPtOf fs) s = Some si \<and>
              load_async si (BarPtOf fs) = Some (cb\<lparr>resumePoint := 0, phase := NOT_STARTED\<rparr>) \<and>
              bar pol (BarPtOf fs) si = Some (rc, s1) \<and>
              load_async s' (BarPtOf fs) = load_async s1 (BarPtOf fs))) \<and>
         (resumePoint blk = 110 \<and>
          (phase cb = FINISHED \<or> resumePoint cb = 0 \<or> resumePoint cb = 126) \<longrightarrow>
           (\<exists>r s' rc s1 cb'.
              foo pol (AsyncAt pa) s = Some (r, s') \<and>
              bar pol (BarPtOf fs) s = Some (rc, s1) \<and>
              load_async s1 (BarPtOf fs) = Some cb' \<and>
              load_async s' (BarPtOf fs) = Some cb' \<and>
              (phase cb \<noteq> NOT_STARTED \<longrightarrow> phase cb' \<noteq> NOT_STARTED) \<and>
              (resumePoint cb = 126 \<longrightarrow> resumePoint cb' = 126)))"
proof (rule conjI; rule impI)
  assume "resumePoint blk = 0"
  from foo_top_inits_child [OF inst blk nf this cb v]
  show "\<exists>r s' si rc s1.
              foo pol (AsyncAt pa) s = Some (r, s') \<and>
              load_async s' (BarPtOf fs) =
                Some (if v = 0 then cb\<lparr>resumePoint := 126, phase := SUSPENDED\<rparr>
                      else cb\<lparr>resumePoint := 0, phase := FINISHED\<rparr>) \<and>
              async_init (BarPtOf fs) s = Some si \<and>
              load_async si (BarPtOf fs) = Some (cb\<lparr>resumePoint := 0, phase := NOT_STARTED\<rparr>) \<and>
              bar pol (BarPtOf fs) si = Some (rc, s1) \<and>
              load_async s' (BarPtOf fs) = load_async s1 (BarPtOf fs)" .
next
  assume a: "resumePoint blk = 110 \<and>
          (phase cb = FINISHED \<or> resumePoint cb = 0 \<or> resumePoint cb = 126)"
  then have rp: "resumePoint blk = 110"
    and cok: "phase cb = FINISHED \<or> resumePoint cb = 0 \<or> resumePoint cb = 126"
    by blast+
  from foo_reentry_child [OF inst blk nf rp cb cok]
  show "\<exists>r s' rc s1 cb'.
              foo pol (AsyncAt pa) s = Some (r, s') \<and>
              bar pol (BarPtOf fs) s = Some (rc, s1) \<and>
              load_async s1 (BarPtOf fs) = Some cb' \<and>
              load_async s' (BarPtOf fs) = Some cb' \<and>
              (phase cb \<noteq> NOT_STARTED \<longrightarrow> phase cb' \<noteq> NOT_STARTED) \<and>
              (resumePoint cb = 126 \<longrightarrow> resumePoint cb' = 126)" .
qed

theorem child_initialised_at_top_only_witness:
  "\<exists>log sf si sr s1 s2 s3.
     run NoOpDone [Resume_foo (AsyncAt 0), Store 1 1, Resume_foo (AsyncAt 0)] (sample_state 0) =
       Some (log, sf) \<and>
     load_async sf (BarPtOf 3) = Some \<lparr>resumePoint = 126, phase = FINISHED, stack = Some 2\<rparr> \<and>
     async_init (AsyncAt 0) sf = Some si \<and>
     store_int 1 0 si = Some sr \<and>
     foo_instance sr 0 3 2 1 \<and>
     load_async sr (AsyncAt 0) = Some \<lparr>resumePoint = 0, phase = NOT_STARTED, stack = Some 3\<rparr> \<and>
     load_async sr (BarPtOf 3) = Some \<lparr>resumePoint = 126, phase = FINISHED, stack = Some 2\<rparr> \<and>
     load_int sr 1 = Some 0 \<and>
     foo NoOpDone (AsyncAt 0) sr = Some (Inr ASYNC_SUSPENDED, s1) \<and>
     load_async s1 (BarPtOf 3) = Some \<lparr>resumePoint = 126, phase = SUSPENDED, stack = Some 2\<rparr> \<and>
     foo_instance s1 0 3 2 1 \<and>
     load_async s1 (AsyncAt 0) = Some \<lparr>resumePoint = 110, phase = SUSPENDED, stack = Some 3\<rparr> \<and>
     store_int 1 1 s1 = Some s2 \<and>
     foo NoOpDone (AsyncAt 0) s2 = Some (Inr ASYNC_FINISHED, s3) \<and>
     map_option resumePoint (load_async s3 (BarPtOf 3)) = Some 126 \<and>
     map_option phase (load_async s3 (BarPtOf 3)) \<noteq> Some NOT_STARTED"
proof -
  note defs = sample_state_def zero_async_def foo_def foo_top_def foo_L110_def bar_def
    bar_L126_def async_begin_def async_init_def await_suspend_def async_end_def
    load_foo_stack_def store_foo_stack_def load_bar_stack_def load_int_def store_int_def
    puts_def printf_def Let_def
  let ?sched = "[Resume_foo (AsyncAt 0), Store 1 1, Resume_foo (AsyncAt 0)]"
  let ?log = "[(AsyncAt 0, Inr ASYNC_SUSPENDED), (AsyncAt 0, Inr ASYNC_FINISHED)] :: (async_ptr \<times> result) list"
  let ?dirty = "\<lparr>resumePoint = 126, phase = FINISHED, stack = Some 2\<rparr>"
  let ?fresh = "\<lparr>resumePoint = 0, phase = NOT_STARTED, stack = Some 3\<rparr>"
  let ?waiting = "\<lparr>resumePoint = 110, phase = SUSPENDED, stack = Some 3\<rparr>"
  let ?cw = "\<lparr>resumePoint = 126, phase = SUSPENDED, stack = Some 2\<rparr>"
  obtain sf where r0: "run NoOpDone ?sched (sample_state 0) = Some (?log, sf)"
    by (simp add: defs)
  then have sf: "sf = snd (the (run NoOpDone ?sched (sample_state 0)))"
    by simp
  have d0: "load_async sf (BarPtOf 3) = Some ?dirty"
    unfolding sf by (simp add: defs)
  obtain si where i0: "async_init (AsyncAt 0) sf = Some si"
    unfolding sf by (simp add: defs)
  then have si: "si = the (async_init (AsyncAt 0) sf)"
    by simp
  obtain sr where i1: "store_int 1 0 si = Some sr"
    unfolding si sf by (simp add: defs)
  then have sr: "sr = the (store_int 1 0 si)"
    by simp
  have h1: "foo_instance sr 0 3 2 1"
    unfolding sr si sf by (simp add: defs foo_instance_def bar_instance_def)
  have h2: "load_async sr (AsyncAt 0) = Some ?fresh"
    unfolding sr si sf by (simp add: defs)
  have h3: "phase ?fresh \<noteq> FINISHED" "resumePoint ?fresh = 0"
    by simp_all
  have h4: "load_async sr (BarPtOf 3) = Some ?dirty"
    unfolding sr si sf by (simp add: defs)
  have h5: "load_int sr 1 = Some 0"
    unfolding sr si sf by (simp add: defs)
  obtain s1 where c1: "foo NoOpDone (AsyncAt 0) sr = Some (Inr ASYNC_SUSPENDED, s1)"
    unfolding sr si sf by (simp add: defs)
  then have s1: "s1 = snd (the (foo NoOpDone (AsyncAt 0) sr))"
    by simp
  from child_initialised_at_top_only [OF h1 h2 h3(1) h4 h5, of NoOpDone] h3(2) c1
  have t1: "load_async s1 (BarPtOf 3) = Some ?cw"
    by auto
  have g1: "foo_instance s1 0 3 2 1"
    unfolding s1 sr si sf by (simp add: defs foo_instance_def bar_instance_def)
  have g2: "load_async s1 (AsyncAt 0) = Some ?waiting"
    unfolding s1 sr si sf by (simp add: defs)
  obtain s2 where c2: "store_int 1 1 s1 = Some s2"
    unfolding s1 sr si sf by (simp add: defs)
  then have s2: "s2 = the (store_int 1 1 s1)"
    by simp
  have k1: "foo_instance s2 0 3 2 1"
    using store_int_writes [OF c2] g1 writes_only_shape foo_instance_same_shape by blast
  have k2: "load_async s2 (AsyncAt 0) = Some ?waiting"
    unfolding s2 s1 sr si sf by (simp add: defs)
  have k3: "phase ?waiting \<noteq> FINISHED" "resumePoint ?waiting = 110"
    by simp_all
  have k4: "load_async s2 (BarPtOf 3) = Some ?cw"
    unfolding s2 s1 sr si sf by (simp add: defs)
  have k5: "load_int s2 1 = Some 1"
    unfolding s2 s1 sr si sf by (simp add: defs)
  obtain s3 where c3: "foo NoOpDone (AsyncAt 0) s2 = Some (Inr ASYNC_FINISHED, s3)"
    unfolding s2 s1 sr si sf by (simp add: defs)
  from child_initialised_at_top_only [OF k1 k2 k3(1) k4 k5, of NoOpDone] k3(2) c3
  have t2: "map_option resumePoint (load_async s3 (BarPtOf 3)) = Some 126 \<and>
     map_option phase (load_async s3 (BarPtOf 3)) \<noteq> Some NOT_STARTED"
    by auto
  from r0 d0 i0 i1 h1 h2 h4 h5 c1 t1 g1 g2 c2 c3 t2 show ?thesis by blast
qed

subsection \<open>Runs of actions\<close>

lemma run_step:
  assumes "run pol (act # acts) s = Some (log, s')"
  obtains s1 log1 where "writes_only (footprint s act) s s1" "run pol acts s1 = Some (log1, s')"
proof (cases act)
  case (Resume_foo pt)
  with assms obtain r s1 log1 where "foo pol pt s = Some (r, s1)" "run pol acts s1 = Some (log1, s')"
    by (auto simp: Option.bind_eq_Some_conv)
  with that foo_writes Resume_foo show ?thesis by blast
next
  case (Resume_bar pt)
  with assms obtain r s1 log1 where "bar pol pt s = Some (r, s1)" "run pol acts s1 = Some (log1, s')"
    by (auto simp: Option.bind_eq_Some_conv)
  with that bar_writes [of pol pt s r s1] Resume_bar show ?thesis by simp
next
  case (Store a v)
  with assms obtain s1 where "store_int a v s = Some s1" "run pol acts s1 = Some (log, s')"
    by (auto simp: Option.bind_eq_Some_conv)
  with that store_int_writes [of a v s s1] Store show ?thesis by simp
qed

lemma run_writes:
  assumes "run pol acts s = Some (log, s')"
  shows "writes_only (\<Union>act \<in> set acts. footprint s act) s s'"
  using assms
proof (induction acts arbitrary: s log)
  case Nil
  then show ?case by simp
next
  case (Cons act acts)
  from Cons.prems obtain s1 log1 where w: "writes_only (footprint s act) s s1"
    and r: "run pol acts s1 = Some (log1, s')"
    by (rule run_step)
  from w have sh: "same_shape s s1" by (rule writes_only_shape)
  from Cons.IH [OF r] have "writes_only (\<Union>act \<in> set acts. footprint s act) s1 s'"
    by (simp add: footprint_same_shape [OF sh])
  with w show ?case by (rule writes_only_trans) auto
qed

lemma run_untouched:
  assumes "run pol acts s = Some (log, s')" "\<forall>act \<in> set acts. a \<notin> footprint s act"
  shows "heap s' a = heap s a"
  using writes_onlyD [OF run_writes [OF assms(1)], of a] assms(2) by auto

lemma foo_step_first_suspended:
  assumes "phase blk \<noteq> FINISHED" "resumePoint blk = 0"
    and "foo_step pol blk f v = Some (Inr ASYNC_SUSPENDED, blk', f', out)"
  shows "blk' = blk\<lparr>resumePoint := 110, phase := SUSPENDED\<rparr> \<and>
         f' = f\<lparr>num := 23, bar_pt := (bar_pt f)\<lparr>resumePoint := 126, phase := SUSPENDED\<rparr>\<rparr>"
  using assms
  by (auto simp: foo_step_def foo_L110_step_def bar_step_def bar_L126_step_def
      split: if_splits option.splits)

lemma foo_step_suspended:
  assumes "phase blk = SUSPENDED" "resumePoint blk = 110"
    "phase (bar_pt f) = SUSPENDED" "resumePoint (bar_pt f) = 126"
  shows "foo_step pol blk f v = Some
     (if v = 0 then (Inr ASYNC_SUSPENDED, blk, f, [])
      else (Inr ASYNC_FINISHED, blk\<lparr>phase := FINISHED\<rparr>, f\<lparr>bar_pt := (bar_pt f)\<lparr>phase := FINISHED\<rparr>\<rparr>,
        [Puts ''bar end'',
         Printf ''num in the foo stack is still %d'' (Some (sint (num f))),
         Printf ''but the local_num is now %d'' None,
         Puts ''foo end'']))"
  using assms
  by (auto simp: foo_step_def foo_L110_step_def bar_step_def bar_L126_step_def
      intro!: async_struct.equality foo_stack.equality)

subsection \<open>One instance driven by resume calls\<close>

lemma parked_iff:
  "parked s pa fs \<longleftrightarrow>
     (\<exists>blk f. heap s pa = Some (AsyncObj blk) \<and> phase blk = SUSPENDED \<and> resumePoint blk = 110 \<and>
        heap s fs = Some (FooStackObj f) \<and> num f = 23 \<and>
        phase (bar_pt f) = SUSPENDED \<and> resumePoint (bar_pt f) = 126)"
  by (auto simp: parked_def load_foo_stack_def split: option.splits object.splits)

lemma store_int_eq:
  "store_int a v s = Some s1 \<Longrightarrow> (\<exists>w. heap s a = Some (IntObj w)) \<and> s1 = s\<lparr>heap := (heap s)(a \<mapsto> IntObj v)\<rparr>"
  by (auto simp: store_int_def split: option.splits object.splits)

lemma store_int_load_async:
  "store_int a v s = Some s1 \<Longrightarrow> load_async s1 pt = load_async s pt"
  by (cases pt) (auto dest!: store_int_eq)

lemma store_int_keeps_finished:
  "store_int a v s = Some s1 \<Longrightarrow> finished_at s pt \<Longrightarrow> finished_at s1 pt"
  by (simp add: finished_at_def store_int_load_async)

lemma store_int_keeps_parked:
  "store_int a v s = Some s1 \<Longrightarrow> parked s pa fs \<Longrightarrow> parked s1 pa fs"
  by (auto simp: parked_iff dest!: store_int_eq)

lemma store_int_keeps_instance:
  "store_int a v s = Some s1 \<Longrightarrow> foo_instance s pa fs bs lk \<Longrightarrow> foo_instance s1 pa fs bs lk"
  using store_int_writes writes_only_shape foo_instance_same_shape by blast

lemma store_int_stdout: "store_int a v s = Some s1 \<Longrightarrow> stdout s1 = stdout s"
  by (auto dest!: store_int_eq)

lemma store_int_load_foo_stack:
  "store_int a v s = Some s1 \<Longrightarrow> load_foo_stack s1 fs = load_foo_stack s fs"
  by (auto simp: load_foo_stack_def dest!: store_int_eq)

lemma run_finished:
  assumes "run pol sched s = Some (log, t)"
    and "finished_at s (AsyncAt pa)"
    and "\<forall>act \<in> set sched. act = Resume_foo (AsyncAt pa) \<or> (\<exists>a v. act = Store a v)"
  shows "stdout t = stdout s \<and> load_foo_stack t fs = load_foo_stack s fs"
  using assms
proof (induction sched arbitrary: s log)
  case Nil
  then show ?case by simp
next
  case (Cons act sched)
  from Cons.prems(3) consider "act = Resume_foo (AsyncAt pa)" | a v where "act = Store a v"
    by auto
  then show ?case
  proof cases
    case 1
    with Cons.prems(1) foo_on_finished [OF Cons.prems(2), of pol]
    obtain log1 where "run pol sched s = Some (log1, t)"
      by (auto simp: Option.bind_eq_Some_conv)
    from Cons.IH [OF this Cons.prems(2)] Cons.prems(3) show ?thesis by simp
  next
    case 2
    with Cons.prems(1) obtain s1 where st: "store_int a v s = Some s1"
      and r: "run pol sched s1 = Some (log, t)"
      by (auto simp: Option.bind_eq_Some_conv)
    from Cons.IH [OF r store_int_keeps_finished [OF st Cons.prems(2)]] Cons.prems(3)
    show ?thesis by (simp add: store_int_stdout [OF st] store_int_load_foo_stack [OF st])
  qed
qed

lemma parked_num: "parked s pa fs \<Longrightarrow> map_option num (load_foo_stack s fs) = Some 23"
  by (auto simp: parked_iff load_foo_stack_def)

lemma foo_parked:
  assumes inst: "foo_instance s pa fs bs lk" and p: "parked s pa fs"
    and call: "foo pol (AsyncAt pa) s = Some (r, s1)"
  shows "(r = Inr ASYNC_SUSPENDED \<and> s1 = s) \<or>
         (r = Inr ASYNC_FINISHED \<and> finished_at s1 (AsyncAt pa) \<and>
          map_option num (load_foo_stack s1 fs) = Some 23 \<and>
          stdout s1 = stdout s @ drop 4 (foo_trace None))"
proof -
  from inst p obtain blk f b v where f: "heap s pa = Some (AsyncObj blk)" "stack blk = Some fs"
    "heap s fs = Some (FooStackObj f)" "stack (bar_pt f) = Some bs"
    "heap s bs = Some (BarStackObj b)" "lock b = Some lk" "heap s lk = Some (IntObj v)"
    and q: "phase blk = SUSPENDED" "resumePoint blk = 110" "num f = 23"
      "phase (bar_pt f) = SUSPENDED" "resumePoint (bar_pt f) = 126"
    by (auto simp: foo_instance_iff parked_iff)
  have ne: "pa \<noteq> fs" using f by auto
  show ?thesis
    using call f q ne unfolding foo_closed [OF f] foo_step_suspended [OF q(1,2,4,5)]
    by (auto simp: map_upd_triv finished_at_def foo_trace_def load_foo_stack_def split: if_splits)
qed

lemma run_parked:
  assumes "run pol sched s = Some (log, t)"
    and "foo_instance s pa fs bs lk" and "parked s pa fs"
    and "\<forall>act \<in> set sched. act = Resume_foo (AsyncAt pa) \<or> (\<exists>a v. act = Store a v)"
  shows "map_option num (load_foo_stack t fs) = Some 23 \<and>
         ((stdout t = stdout s \<and> (AsyncAt pa, Inr ASYNC_FINISHED) \<notin> set log) \<or>
          (stdout t = stdout s @ drop 4 (foo_trace None) \<and> (AsyncAt pa, Inr ASYNC_FINISHED) \<in> set log))"
  using assms
proof (induction sched arbitrary: s log)
  case Nil
  then show ?case by (simp add: parked_num)
next
  case (Cons act sched)
  from Cons.prems(4) have rest: "\<forall>act \<in> set sched. act = Resume_foo (AsyncAt pa) \<or> (\<exists>a v. act = Store a v)"
    by simp
  from Cons.prems(4) consider "act = Resume_foo (AsyncAt pa)" | a v where "act = Store a v"
    by auto
  then show ?case
  proof cases
    case 1
    with Cons.prems(1) obtain r s1 log1 where call: "foo pol (AsyncAt pa) s = Some (r, s1)"
      and r: "run pol sched s1 = Some (log1, t)" and log: "log = (AsyncAt pa, r) # log1"
      by (auto simp: Option.bind_eq_Some_conv)
    from foo_parked [OF Cons.prems(2,3) call] show ?thesis
    proof (elim disjE conjE)
      assume "r = Inr ASYNC_SUSPENDED" "s1 = s"
      with Cons.IH [OF _ Cons.prems(2,3) rest] r log show ?thesis by auto
    next
      assume "r = Inr ASYNC_FINISHED" "finished_at s1 (AsyncAt pa)"
        "map_option num (load_foo_stack s1 fs) = Some 23"
        "stdout s1 = stdout s @ drop 4 (foo_trace None)"
      with run_finished [OF r _ rest, of fs] log show ?thesis by simp
    qed
  next
    case 2
    with Cons.prems(1) obtain s1 where st: "store_int a v s = Some s1"
      and r: "run pol sched s1 = Some (log, t)"
      by (auto simp: Option.bind_eq_Some_conv)
    from Cons.IH [OF r store_int_keeps_instance [OF st Cons.prems(2)]
        store_int_keeps_parked [OF st Cons.prems(3)] rest]
    show ?thesis by (simp add: store_int_stdout [OF st])
  qed
qed

lemma foo_fresh:
  assumes inst: "foo_instance s pa fs bs lk"
    and blk: "load_async s (AsyncAt pa) = Some blk" "phase blk \<noteq> FINISHED" "resumePoint blk = 0"
    and call: "foo pol (AsyncAt pa) s = Some (r, s1)"
  shows "(r = Inr ASYNC_SUSPENDED \<and> foo_instance s1 pa fs bs lk \<and> parked s1 pa fs \<and>
          stdout s1 = stdout s @ take 4 (foo_trace None)) \<or>
         (r = Inr ASYNC_FINISHED \<and> finished_at s1 (AsyncAt pa) \<and>
          map_option num (load_foo_stack s1 fs) = Some 23 \<and>
          stdout s1 = stdout s @ foo_trace (Some 11))"
proof -
  from inst blk(1) obtain f b v where f: "heap s pa = Some (AsyncObj blk)" "stack blk = Some fs"
    "heap s fs = Some (FooStackObj f)" "stack (bar_pt f) = Some bs"
    "heap s bs = Some (BarStackObj b)" "lock b = Some lk" "heap s lk = Some (IntObj v)"
    by (auto simp: foo_instance_iff)
  have ne: "pa \<noteq> fs" using f by auto
  have i1: "foo_instance s1 pa fs bs lk"
    using foo_writes [OF call] inst writes_only_shape foo_instance_same_shape by blast
  show ?thesis
    using call blk(2,3) ne i1 unfolding foo_closed [OF f]
    by (auto simp: foo_step_def foo_L110_step_def bar_step_def bar_L126_step_def
        finished_at_def foo_trace_def parked_iff load_foo_stack_def split: if_splits)
qed

lemma run_fresh:
  assumes "run pol sched s = Some (log, t)"
    and "foo_instance s pa fs bs lk"
    and "load_async s (AsyncAt pa) = Some blk"
    and nf: "phase blk \<noteq> FINISHED"
    and rp: "resumePoint blk = 0"
    and "\<forall>act \<in> set sched. act = Resume_foo (AsyncAt pa) \<or> (\<exists>a v. act = Store a v)"
  shows "(\<exists>n. stdout t = stdout s @
              take n (foo_trace (if log \<noteq> [] \<and> snd (hd log) = Inr ASYNC_FINISHED then Some 11 else None)) \<and>
            (n = 0 \<or> n = 4 \<or> n = 8) \<and>
            (n = 0 \<longleftrightarrow> log = []) \<and>
            (n = 8 \<longleftrightarrow> (AsyncAt pa, Inr ASYNC_FINISHED) \<in> set log)) \<and>
         (log \<noteq> [] \<longrightarrow> map_option num (load_foo_stack t fs) = Some 23)"
  using assms(1,2,3,6)
proof (induction sched arbitrary: s log)
  case Nil
  then show ?case by (auto intro!: exI [of _ 0])
next
  case (Cons act sched)
  from Cons.prems(4) have rest: "\<forall>act \<in> set sched. act = Resume_foo (AsyncAt pa) \<or> (\<exists>a v. act = Store a v)"
    by simp
  from Cons.prems(4) consider "act = Resume_foo (AsyncAt pa)" | a v where "act = Store a v"
    by auto
  then show ?case
  proof cases
    case 1
    with Cons.prems(1) obtain r s1 log1 where call: "foo pol (AsyncAt pa) s = Some (r, s1)"
      and r: "run pol sched s1 = Some (log1, t)" and log: "log = (AsyncAt pa, r) # log1"
      by (auto simp: Option.bind_eq_Some_conv)
    from foo_fresh [OF Cons.prems(2,3) nf rp call] show ?thesis
    proof (elim disjE conjE)
      assume a: "r = Inr ASYNC_SUSPENDED" "foo_instance s1 pa fs bs lk" "parked s1 pa fs"
        "stdout s1 = stdout s @ take 4 (foo_trace None)"
      from run_parked [OF r a(2,3) rest]
      have nm: "map_option num (load_foo_stack t fs) = Some 23"
        and alt: "(stdout t = stdout s1 \<and> (AsyncAt pa, Inr ASYNC_FINISHED) \<notin> set log1) \<or>
          (stdout t = stdout s1 @ drop 4 (foo_trace None) \<and> (AsyncAt pa, Inr ASYNC_FINISHED) \<in> set log1)"
        by blast+
      from alt show ?thesis
      proof (elim disjE conjE)
        assume "stdout t = stdout s1" "(AsyncAt pa, Inr ASYNC_FINISHED) \<notin> set log1"
        with a log nm show ?thesis by (intro conjI exI [of _ 4]) auto
      next
        assume "stdout t = stdout s1 @ drop 4 (foo_trace None)"
          "(AsyncAt pa, Inr ASYNC_FINISHED) \<in> set log1"
        with a log nm show ?thesis
          by (intro conjI exI [of _ 8]) (auto simp: foo_trace_def)
      qed
    next
      assume a: "r = Inr ASYNC_FINISHED" "finished_at s1 (AsyncAt pa)"
        "map_option num (load_foo_stack s1 fs) = Some 23"
        "stdout s1 = stdout s @ foo_trace (Some 11)"
      from run_finished [OF r a(2) rest, of fs] a log show ?thesis
        by (intro conjI exI [of _ 8]) (auto simp: foo_trace_def)
    qed
  next
    case 2
    with Cons.prems(1) obtain s1 where st: "store_int a v s = Some s1"
      and r: "run pol sched s1 = Some (log, t)"
      by (auto simp: Option.bind_eq_Some_conv)
    have b1: "load_async s1 (AsyncAt pa) = Some blk"
      using Cons.prems(3) by (simp only: store_int_load_async [OF st])
    from Cons.IH [OF r store_int_keeps_instance [OF st Cons.prems(2)] b1 rest]
    show ?thesis by (simp add: store_int_stdout [OF st])
  qed
qed

lemma bar_step_out:
  "bar_step pol cb v = Some (rc, cb', out) \<Longrightarrow>
   out = (if phase cb = FINISHED then []
          else (if resumePoint cb = 0 then [Puts ''bar start''] else []) @
               (if v = 0 then [] else [Puts ''bar end'']))"
  by (auto simp: bar_step_def bar_L126_step_def split: if_splits)

lemma foo_reentry_effects:
  assumes inst: "foo_instance s pa fs bs lk"
    and blk: "load_async s (AsyncAt pa) = Some blk"
    and nf: "phase blk \<noteq> FINISHED"
    and rp: "resumePoint blk = 110"
    and fr: "load_foo_stack s fs = Some f"
    and call: "foo pol (AsyncAt pa) s = Some (r, t)"
  shows "map_option num (load_foo_stack t fs) = Some (num f) \<and>
         (\<exists>v. load_int s lk = Some v \<and>
            stdout t = stdout s @
              (if phase (bar_pt f) = FINISHED then []
               else (if resumePoint (bar_pt f) = 0 then [Puts ''bar start''] else []) @
                    (if v = 0 then [] else [Puts ''bar end''])) @
              (if r = Inr ASYNC_FINISHED
               then [Printf ''num in the foo stack is still %d'' (Some (sint (num f))),
                     Printf ''but the local_num is now %d'' None,
                     Puts ''foo end'']
               else []))"
proof -
  from inst blk fr obtain b v where f: "heap s pa = Some (AsyncObj blk)" "stack blk = Some fs"
    "heap s fs = Some (FooStackObj f)" "stack (bar_pt f) = Some bs"
    "heap s bs = Some (BarStackObj b)" "lock b = Some lk" "heap s lk = Some (IntObj v)"
    by (auto simp: foo_instance_iff load_foo_stack_def)
  have ne: "pa \<noteq> fs" using f by auto
  have v: "load_int s lk = Some v" using f by (simp add: load_int_def)
  from call have st: "foo_step pol blk f v \<noteq> None"
    unfolding foo_closed [OF f] by auto
  then obtain rc cb out where b: "bar_step pol (bar_pt f) v = Some (rc, cb, out)"
    using nf rp by (auto simp: foo_step_def foo_L110_step_def split: option.splits)
  note o = bar_step_out [OF b]
  show ?thesis
    using call ne nf rp b v unfolding foo_closed [OF f]
    by (auto simp: foo_step_def foo_L110_step_def load_foo_stack_def o [symmetric] split: if_splits)
qed

lemma foo_reentry_result:
  assumes inst: "foo_instance s pa fs bs lk"
    and blk: "load_async s (AsyncAt pa) = Some blk"
    and nf: "phase blk \<noteq> FINISHED"
    and rp: "resumePoint blk = 110"
    and fr: "load_foo_stack s fs = Some f"
    and call: "foo pol (AsyncAt pa) s = Some (r, t)"
  shows "phase (bar_pt f) \<noteq> FINISHED \<longrightarrow> (r = Inr ASYNC_FINISHED \<longleftrightarrow> load_int s lk \<noteq> Some 0)"
proof -
  from inst blk fr obtain b v where f: "heap s pa = Some (AsyncObj blk)" "stack blk = Some fs"
    "heap s fs = Some (FooStackObj f)" "stack (bar_pt f) = Some bs"
    "heap s bs = Some (BarStackObj b)" "lock b = Some lk" "heap s lk = Some (IntObj v)"
    by (auto simp: foo_instance_iff load_foo_stack_def)
  show ?thesis
    using call nf rp f(7) unfolding foo_closed [OF f]
    by (auto simp: foo_step_def foo_L110_step_def bar_step_def bar_L126_step_def load_int_def
        split: if_splits option.splits)
qed

section \<open>Resumption correctness\<close>

text \<open>
  Claim C1. Take a fresh instance of \<^verbatim>\<open>foo\<close> (its child \<^verbatim>\<open>bar\<close> is a task body of
  its own, with its own suspension point) and drive it by any sequence of resume
  calls, with stores into \<^verbatim>\<open>int\<close> objects (the flag among them) anywhere in between.
  The lines printed are then always a prefix of \<open>foo_trace\<close>, the statements of the
  two bodies in program order, each listed once: nothing before a suspension point
  is printed again by a later resume, nothing is skipped, nothing is out of order.
  The prefix is empty exactly when no resume call was made, it is the whole trace
  exactly when some call returned \<open>FINISHED\<close>, and otherwise it is the four lines
  before the child's await. The transient local is printed as 11 only when the first
  call ran through to the end; after a re-entry it is indeterminate, the assignment
  to it is not made again. Once a call was made, the frame field \<^verbatim>\<open>num\<close> holds the 23
  stored at the top of the body.

  The side effects that print nothing are not replayed either. For every state
  \<open>s'\<close> in which the instance waits at its await, whatever its frame \<open>f'\<close> holds (the
  caller may have written the field since), a resume call leaves \<^verbatim>\<open>num\<close> as it
  finds it, so the store of 23 is not made again, and prints only what lies after
  the resume points: the child's lines from the child's own resume point on, and,
  when the call completes, the three lines after the parent's await, with the
  value of \<^verbatim>\<open>num\<close> found in the frame.
\<close>

theorem statements_run_once_in_order:
  assumes inst: "foo_instance s pa fs bs lk"
    and blk: "load_async s (AsyncAt pa) = Some blk"
    and nf: "phase blk \<noteq> FINISHED"
    and rp: "resumePoint blk = 0"
    and sched: "\<forall>act \<in> set sched. act = Resume_foo (AsyncAt pa) \<or> (\<exists>a v. act = Store a v)"
    and run: "run pol sched s = Some (log, t)"
  shows "(\<exists>n. stdout t = stdout s @
              take n (foo_trace (if log \<noteq> [] \<and> snd (hd log) = Inr ASYNC_FINISHED then Some 11 else None)) \<and>
            (n = 0 \<or> n = 4 \<or> n = 8) \<and>
            (n = 0 \<longleftrightarrow> log = []) \<and>
            (n = 8 \<longleftrightarrow> (AsyncAt pa, Inr ASYNC_FINISHED) \<in> set log)) \<and>
         (log \<noteq> [] \<longrightarrow> map_option num (load_foo_stack t fs) = Some 23) \<and>
         (foo_instance s' pa fs bs lk \<and> load_async s' (AsyncAt pa) = Some blk' \<and>
          phase blk' \<noteq> FINISHED \<and> resumePoint blk' = 110 \<and>
          load_foo_stack s' fs = Some f' \<and> foo pol (AsyncAt pa) s' = Some (r', t')
          \<longrightarrow> map_option num (load_foo_stack t' fs) = Some (num f') \<and>
              (\<exists>v. load_int s' lk = Some v \<and>
                 stdout t' = stdout s' @
                   (if phase (bar_pt f') = FINISHED then []
                    else (if resumePoint (bar_pt f') = 0 then [Puts ''bar start''] else []) @
                         (if v = 0 then [] else [Puts ''bar end''])) @
                   (if r' = Inr ASYNC_FINISHED
                    then [Printf ''num in the foo stack is still %d'' (Some (sint (num f'))),
                          Printf ''but the local_num is now %d'' None,
                          Puts ''foo end'']
                    else [])))"
proof -
  note rf = run_fresh [OF run inst blk nf rp sched]
  from rf have p1: "\<exists>n. stdout t = stdout s @
              take n (foo_trace (if log \<noteq> [] \<and> snd (hd log) = Inr ASYNC_FINISHED then Some 11 else None)) \<and>
            (n = 0 \<or> n = 4 \<or> n = 8) \<and>
            (n = 0 \<longleftrightarrow> log = []) \<and>
            (n = 8 \<longleftrightarrow> (AsyncAt pa, Inr ASYNC_FINISHED) \<in> set log)"
    by (rule conjunct1)
  from rf have p2: "log \<noteq> [] \<longrightarrow> map_option num (load_foo_stack t fs) = Some 23"
    by (rule conjunct2)
  have p3: "foo_instance s' pa fs bs lk \<and> load_async s' (AsyncAt pa) = Some blk' \<and>
          phase blk' \<noteq> FINISHED \<and> resumePoint blk' = 110 \<and>
          load_foo_stack s' fs = Some f' \<and> foo pol (AsyncAt pa) s' = Some (r', t')
          \<longrightarrow> map_option num (load_foo_stack t' fs) = Some (num f') \<and>
              (\<exists>v. load_int s' lk = Some v \<and>
                 stdout t' = stdout s' @
                   (if phase (bar_pt f') = FINISHED then []
                    else (if resumePoint (bar_pt f') = 0 then [Puts ''bar start''] else []) @
                         (if v = 0 then [] else [Puts ''bar end''])) @
                   (if r' = Inr ASYNC_FINISHED
                    then [Printf ''num in the foo stack is still %d'' (Some (sint (num f'))),
                          Printf ''but the local_num is now %d'' None,
                          Puts ''foo end'']
                    else []))"
  proof
    assume a: "foo_instance s' pa fs bs lk \<and> load_async s' (AsyncAt pa) = Some blk' \<and>
          phase blk' \<noteq> FINISHED \<and> resumePoint blk' = 110 \<and>
          load_foo_stack s' fs = Some f' \<and> foo pol (AsyncAt pa) s' = Some (r', t')"
    then have a1: "foo_instance s' pa fs bs lk" and a2: "load_async s' (AsyncAt pa) = Some blk'"
      and a3: "phase blk' \<noteq> FINISHED" and a4: "resumePoint blk' = 110"
      and a5: "load_foo_stack s' fs = Some f'" and a6: "foo pol (AsyncAt pa) s' = Some (r', t')"
      by blast+
    from foo_reentry_effects [OF a1 a2 a3 a4 a5 a6]
    show "map_option num (load_foo_stack t' fs) = Some (num f') \<and>
              (\<exists>v. load_int s' lk = Some v \<and>
                 stdout t' = stdout s' @
                   (if phase (bar_pt f') = FINISHED then []
                    else (if resumePoint (bar_pt f') = 0 then [Puts ''bar start''] else []) @
                         (if v = 0 then [] else [Puts ''bar end''])) @
                   (if r' = Inr ASYNC_FINISHED
                    then [Printf ''num in the foo stack is still %d'' (Some (sint (num f'))),
                          Printf ''but the local_num is now %d'' None,
                          Puts ''foo end'']
                    else []))" .
  qed
  show ?thesis by (rule conjI [OF p1 conjI [OF p2 p3]])
qed

theorem statements_run_once_in_order_witness:
  "\<exists>log t s1 s2 s3 t'.
     foo_instance (sample_state 0) 0 3 2 1 \<and>
     load_async (sample_state 0) (AsyncAt 0) = Some (zero_async\<lparr>stack := Some 3\<rparr>) \<and>
     phase (zero_async\<lparr>stack := Some 3\<rparr>) \<noteq> FINISHED \<and>
     resumePoint (zero_async\<lparr>stack := Some 3\<rparr>) = 0 \<and>
     run NoOpDone
       [Resume_foo (AsyncAt 0), Resume_foo (AsyncAt 0), Store 1 1, Resume_foo (AsyncAt 0),
        Resume_foo (AsyncAt 0)] (sample_state 0) = Some (log, t) \<and>
     log = [(AsyncAt 0, Inr ASYNC_SUSPENDED), (AsyncAt 0, Inr ASYNC_SUSPENDED),
            (AsyncAt 0, Inr ASYNC_FINISHED), (AsyncAt 0, Inr ASYNC_FINISHED)] \<and>
     stdout t = foo_trace None \<and>
     map_option num (load_foo_stack (sample_state 0) 3) = Some 0 \<and>
     map_option num (load_foo_stack t 3) = Some 23 \<and>
     foo NoOpDone (AsyncAt 0) (sample_state 0) = Some (Inr ASYNC_SUSPENDED, s1) \<and>
     load_foo_stack s1 3 =
       Some \<lparr>num = 23, bar_pt = \<lparr>resumePoint = 126, phase = SUSPENDED, stack = Some 2\<rparr>\<rparr> \<and>
     store_foo_stack 3 \<lparr>num = 7, bar_pt = \<lparr>resumePoint = 126, phase = SUSPENDED, stack = Some 2\<rparr>\<rparr> s1 =
       Some s2 \<and>
     store_int 1 1 s2 = Some s3 \<and>
     foo_instance s3 0 3 2 1 \<and>
     load_async s3 (AsyncAt 0) = Some \<lparr>resumePoint = 110, phase = SUSPENDED, stack = Some 3\<rparr> \<and>
     load_foo_stack s3 3 =
       Some \<lparr>num = 7, bar_pt = \<lparr>resumePoint = 126, phase = SUSPENDED, stack = Some 2\<rparr>\<rparr> \<and>
     foo NoOpDone (AsyncAt 0) s3 = Some (Inr ASYNC_FINISHED, t') \<and>
     map_option num (load_foo_stack t' 3) = Some 7 \<and>
     stdout t' = stdout s3 @
       [Puts ''bar end'',
        Printf ''num in the foo stack is still %d'' (Some 7),
        Printf ''but the local_num is now %d'' None,
        Puts ''foo end'']"
proof -
  note defs = sample_state_def zero_async_def foo_def foo_top_def foo_L110_def bar_def
    bar_L126_def async_begin_def async_init_def await_suspend_def async_end_def
    load_foo_stack_def store_foo_stack_def load_bar_stack_def load_int_def store_int_def
    puts_def printf_def Let_def misuse_outcome_def
  let ?sched = "[Resume_foo (AsyncAt 0), Resume_foo (AsyncAt 0), Store 1 1, Resume_foo (AsyncAt 0),
        Resume_foo (AsyncAt 0)]"
  let ?log = "[(AsyncAt 0, Inr ASYNC_SUSPENDED), (AsyncAt 0, Inr ASYNC_SUSPENDED),
            (AsyncAt 0, Inr ASYNC_FINISHED), (AsyncAt 0, Inr ASYNC_FINISHED)] :: (async_ptr \<times> result) list"
  let ?f7 = "\<lparr>num = 7, bar_pt = \<lparr>resumePoint = 126, phase = SUSPENDED, stack = Some 2\<rparr>\<rparr>"
  let ?blk = "\<lparr>resumePoint = 110, phase = SUSPENDED, stack = Some 3\<rparr>"
  have h1: "foo_instance (sample_state 0) 0 3 2 1"
    by (simp add: defs foo_instance_def bar_instance_def)
  have h2: "load_async (sample_state 0) (AsyncAt 0) = Some (zero_async\<lparr>stack := Some 3\<rparr>)"
    by (simp add: sample_state_def)
  have h3: "phase (zero_async\<lparr>stack := Some 3\<rparr>) \<noteq> FINISHED"
    by (simp add: zero_async_def)
  have h4: "resumePoint (zero_async\<lparr>stack := Some 3\<rparr>) = 0"
    by (simp add: zero_async_def)
  have h5: "\<forall>act \<in> set ?sched. act = Resume_foo (AsyncAt 0) \<or> (\<exists>a v. act = Store a v)"
    by simp
  obtain t where h6: "run NoOpDone ?sched (sample_state 0) = Some (?log, t)"
    by (simp add: defs)
  have n0: "map_option num (load_foo_stack (sample_state 0) 3) = Some 0"
    by (simp add: defs)
  obtain s1 where c1: "foo NoOpDone (AsyncAt 0) (sample_state 0) = Some (Inr ASYNC_SUSPENDED, s1)"
    by (simp add: defs)
  then have s1: "s1 = snd (the (foo NoOpDone (AsyncAt 0) (sample_state 0)))"
    by simp
  have f1: "load_foo_stack s1 3 =
       Some \<lparr>num = 23, bar_pt = \<lparr>resumePoint = 126, phase = SUSPENDED, stack = Some 2\<rparr>\<rparr>"
    unfolding s1 by (simp add: defs)
  obtain s2 where c2: "store_foo_stack 3 ?f7 s1 = Some s2"
    unfolding s1 by (simp add: defs)
  then have s2: "s2 = the (store_foo_stack 3 ?f7 s1)"
    by simp
  obtain s3 where c3: "store_int 1 1 s2 = Some s3"
    unfolding s2 s1 by (simp add: defs)
  then have s3: "s3 = the (store_int 1 1 s2)"
    by simp
  have g1: "foo_instance s3 0 3 2 1"
    unfolding s3 s2 s1 by (simp add: defs foo_instance_def bar_instance_def)
  have g2: "load_async s3 (AsyncAt 0) = Some ?blk"
    unfolding s3 s2 s1 by (simp add: defs)
  have g3: "phase ?blk \<noteq> FINISHED" "resumePoint ?blk = 110"
    by simp_all
  have g4: "load_foo_stack s3 3 = Some ?f7"
    unfolding s3 s2 s1 by (simp add: defs)
  have g5: "load_int s3 1 = Some 1"
    unfolding s3 s2 s1 by (simp add: defs)
  obtain t' where g6: "foo NoOpDone (AsyncAt 0) s3 = Some (Inr ASYNC_FINISHED, t')"
    unfolding s3 s2 s1 by (simp add: defs)
  note th = statements_run_once_in_order [OF h1 h2 h3 h4 h5 h6,
      where s' = s3 and blk' = ?blk and f' = ?f7 and r' = "Inr ASYNC_FINISHED" and t' = t']
  from th obtain n where "stdout t = stdout (sample_state 0) @ take n (foo_trace None)"
    "n = 8 \<longleftrightarrow> (AsyncAt 0, Inr ASYNC_FINISHED) \<in> set ?log"
    by auto
  then have out: "stdout t = foo_trace None"
    by (simp add: sample_state_def foo_trace_def)
  from th have nm: "map_option num (load_foo_stack t 3) = Some 23"
    by simp
  from th g1 g2 g3 g4 g5 g6
  have re: "map_option num (load_foo_stack t' 3) = Some 7 \<and>
     stdout t' = stdout s3 @
       [Puts ''bar end'',
        Printf ''num in the foo stack is still %d'' (Some 7),
        Printf ''but the local_num is now %d'' None,
        Puts ''foo end'']"
    by simp
  from h1 h2 h3 h4 h6 out n0 nm c1 f1 c2 c3 g1 g2 g4 g6 re show ?thesis by blast
qed

section \<open>Frame persistence\<close>

text \<open>
  Claim C4. Let an instance of \<^verbatim>\<open>foo\<close> wait at its await with any frame \<open>f\<close>: the
  field \<^verbatim>\<open>num\<close> holds whatever was last written to it, by \<^verbatim>\<open>foo\<close> itself or by the
  caller that owns the frame. Let then any actions run whose footprints do not
  contain the Control Block and the frame of this instance: resume calls of other
  instances of \<^verbatim>\<open>foo\<close> and \<^verbatim>\<open>bar\<close>, in any number and order, and stores into \<^verbatim>\<open>int\<close>
  objects (the flag among them). The frame is afterwards the object it was, and the
  next resume call of the instance reads from it the value that was written: this is
  the value it prints when it completes (it completes when the flag is not 0), and
  the value the field has when the call returns. If the state the instance waits in
  is the one a call of \<^verbatim>\<open>foo\<close> from the top of its body left, the value is the 23
  stored there.
\<close>

theorem frame_value_persists:
  assumes inst: "foo_instance s1 pa fs bs lk"
    and blk: "load_async s1 (AsyncAt pa) = Some blk"
    and nf: "phase blk \<noteq> FINISHED"
    and rp: "resumePoint blk = 110"
    and fr: "load_foo_stack s1 fs = Some f"
    and others: "\<forall>act \<in> set env. pa \<notin> footprint s1 act \<and> fs \<notin> footprint s1 act"
    and env: "run pol env s1 = Some (log, s2)"
    and second: "foo pol (AsyncAt pa) s2 = Some (r, s3)"
  shows "heap s2 fs = heap s1 fs \<and>
         load_foo_stack s2 fs = Some f \<and>
         map_option num (load_foo_stack s3 fs) = Some (num f) \<and>
         (\<exists>v. load_int s2 lk = Some v \<and>
            (phase (bar_pt f) \<noteq> FINISHED \<longrightarrow> (r = Inr ASYNC_FINISHED \<longleftrightarrow> v \<noteq> 0)) \<and>
            stdout s3 = stdout s2 @
              (if phase (bar_pt f) = FINISHED then []
               else (if resumePoint (bar_pt f) = 0 then [Puts ''bar start''] else []) @
                    (if v = 0 then [] else [Puts ''bar end''])) @
              (if r = Inr ASYNC_FINISHED
               then [Printf ''num in the foo stack is still %d'' (Some (sint (num f))),
                     Printf ''but the local_num is now %d'' None,
                     Puts ''foo end'']
               else [])) \<and>
         (foo_instance sa pa fs bs lk \<and> load_async sa (AsyncAt pa) = Some blka \<and>
          phase blka \<noteq> FINISHED \<and> resumePoint blka = 0 \<and>
          foo pol (AsyncAt pa) sa = Some (Inr ASYNC_SUSPENDED, s1)
          \<longrightarrow> num f = 23 \<and> phase (bar_pt f) = SUSPENDED \<and> resumePoint (bar_pt f) = 126)"
proof -
  have sh: "same_shape s1 s2" using run_writes [OF env] by (rule writes_only_shape)
  have k: "heap s2 fs = heap s1 fs" "heap s2 pa = heap s1 pa"
    using run_untouched [OF env] others by auto
  have inst2: "foo_instance s2 pa fs bs lk"
    using inst sh by (rule foo_instance_same_shape [rotated])
  have blk2: "load_async s2 (AsyncAt pa) = Some blk"
    using blk k by simp
  have fr2: "load_foo_stack s2 fs = Some f"
    using fr k by (simp add: load_foo_stack_def)
  note e = foo_reentry_effects [OF inst2 blk2 nf rp fr2 second]
  note q = foo_reentry_result [OF inst2 blk2 nf rp fr2 second]
  from e q have 4: "\<exists>v. load_int s2 lk = Some v \<and>
            (phase (bar_pt f) \<noteq> FINISHED \<longrightarrow> (r = Inr ASYNC_FINISHED \<longleftrightarrow> v \<noteq> 0)) \<and>
            stdout s3 = stdout s2 @
              (if phase (bar_pt f) = FINISHED then []
               else (if resumePoint (bar_pt f) = 0 then [Puts ''bar start''] else []) @
                    (if v = 0 then [] else [Puts ''bar end''])) @
              (if r = Inr ASYNC_FINISHED
               then [Printf ''num in the foo stack is still %d'' (Some (sint (num f))),
                     Printf ''but the local_num is now %d'' None,
                     Puts ''foo end'']
               else [])"
    by auto
  have 5: "foo_instance sa pa fs bs lk \<and> load_async sa (AsyncAt pa) = Some blka \<and>
          phase blka \<noteq> FINISHED \<and> resumePoint blka = 0 \<and>
          foo pol (AsyncAt pa) sa = Some (Inr ASYNC_SUSPENDED, s1)
          \<longrightarrow> num f = 23 \<and> phase (bar_pt f) = SUSPENDED \<and> resumePoint (bar_pt f) = 126"
  proof
    assume a: "foo_instance sa pa fs bs lk \<and> load_async sa (AsyncAt pa) = Some blka \<and>
          phase blka \<noteq> FINISHED \<and> resumePoint blka = 0 \<and>
          foo pol (AsyncAt pa) sa = Some (Inr ASYNC_SUSPENDED, s1)"
    then have a1: "foo_instance sa pa fs bs lk" and a2: "load_async sa (AsyncAt pa) = Some blka"
      and a3: "phase blka \<noteq> FINISHED" and a4: "resumePoint blka = 0"
      and a5: "foo pol (AsyncAt pa) sa = Some (Inr ASYNC_SUSPENDED, s1)"
      by blast+
    from foo_fresh [OF a1 a2 a3 a4 a5] have "parked s1 pa fs" by auto
    with fr show "num f = 23 \<and> phase (bar_pt f) = SUSPENDED \<and> resumePoint (bar_pt f) = 126"
      by (auto simp: parked_iff load_foo_stack_def)
  qed
  from e have 3: "map_option num (load_foo_stack s3 fs) = Some (num f)" by (rule conjunct1)
  show ?thesis by (rule conjI [OF k(1) conjI [OF fr2 conjI [OF 3 conjI [OF 4 5]]]])
qed

theorem frame_value_persists_witness:
  "\<exists>s1 log s2 s3 w1 w2 w3.
     foo_instance (sample_state 0) 0 3 2 1 \<and>
     load_async (sample_state 0) (AsyncAt 0) = Some (zero_async\<lparr>stack := Some 3\<rparr>) \<and>
     foo NoOpDone (AsyncAt 0) (sample_state 0) = Some (Inr ASYNC_SUSPENDED, s1) \<and>
     foo_instance s1 0 3 2 1 \<and>
     load_async s1 (AsyncAt 0) = Some \<lparr>resumePoint = 110, phase = SUSPENDED, stack = Some 3\<rparr> \<and>
     load_foo_stack s1 3 =
       Some \<lparr>num = 23, bar_pt = \<lparr>resumePoint = 126, phase = SUSPENDED, stack = Some 2\<rparr>\<rparr> \<and>
     (\<forall>act \<in> set [Resume_foo (AsyncAt 10), Store 1 1, Resume_bar (BarPtOf 13), Store 11 5].
        0 \<notin> footprint s1 act \<and> 3 \<notin> footprint s1 act) \<and>
     run NoOpDone [Resume_foo (AsyncAt 10), Store 1 1, Resume_bar (BarPtOf 13), Store 11 5] s1 = Some (log, s2) \<and>
     foo NoOpDone (AsyncAt 0) s2 = Some (Inr ASYNC_FINISHED, s3) \<and>
     map_option num (load_foo_stack s3 3) = Some 23 \<and>
     stdout s3 = stdout s2 @
       [Puts ''bar end'',
        Printf ''num in the foo stack is still %d'' (Some 23),
        Printf ''but the local_num is now %d'' None,
        Puts ''foo end''] \<and>
     store_foo_stack 3 \<lparr>num = 7, bar_pt = \<lparr>resumePoint = 126, phase = SUSPENDED, stack = Some 2\<rparr>\<rparr> s1 =
       Some w1 \<and>
     foo_instance w1 0 3 2 1 \<and>
     load_async w1 (AsyncAt 0) = Some \<lparr>resumePoint = 110, phase = SUSPENDED, stack = Some 3\<rparr> \<and>
     load_foo_stack w1 3 =
       Some \<lparr>num = 7, bar_pt = \<lparr>resumePoint = 126, phase = SUSPENDED, stack = Some 2\<rparr>\<rparr> \<and>
     (\<forall>act \<in> set [Resume_foo (AsyncAt 10), Store 1 1, Resume_bar (BarPtOf 13), Store 11 5].
        0 \<notin> footprint w1 act \<and> 3 \<notin> footprint w1 act) \<and>
     run NoOpDone [Resume_foo (AsyncAt 10), Store 1 1, Resume_bar (BarPtOf 13), Store 11 5] w1 = Some (log, w2) \<and>
     foo NoOpDone (AsyncAt 0) w2 = Some (Inr ASYNC_FINISHED, w3) \<and>
     map_option num (load_foo_stack w3 3) = Some 7 \<and>
     stdout w3 = stdout w2 @
       [Puts ''bar end'',
        Printf ''num in the foo stack is still %d'' (Some 7),
        Printf ''but the local_num is now %d'' None,
        Puts ''foo end'']"
proof -
  note defs = sample_state_def zero_async_def foo_def foo_top_def foo_L110_def bar_def
    bar_L126_def async_begin_def async_init_def await_suspend_def async_end_def
    load_foo_stack_def store_foo_stack_def load_bar_stack_def load_int_def store_int_def
    puts_def printf_def Let_def
  let ?env = "[Resume_foo (AsyncAt 10), Store 1 1, Resume_bar (BarPtOf 13), Store 11 5]"
  let ?log = "[(AsyncAt 10, Inr ASYNC_SUSPENDED), (BarPtOf 13, Inr ASYNC_SUSPENDED)] :: (async_ptr \<times> result) list"
  let ?blk = "\<lparr>resumePoint = 110, phase = SUSPENDED, stack = Some 3\<rparr>"
  let ?f23 = "\<lparr>num = 23, bar_pt = \<lparr>resumePoint = 126, phase = SUSPENDED, stack = Some 2\<rparr>\<rparr>"
  let ?f7 = "\<lparr>num = 7, bar_pt = \<lparr>resumePoint = 126, phase = SUSPENDED, stack = Some 2\<rparr>\<rparr>"
  have h1: "foo_instance (sample_state 0) 0 3 2 1"
    by (simp add: defs foo_instance_def bar_instance_def)
  have h2: "load_async (sample_state 0) (AsyncAt 0) = Some (zero_async\<lparr>stack := Some 3\<rparr>)"
    by (simp add: sample_state_def)
  obtain s1 where h5: "foo NoOpDone (AsyncAt 0) (sample_state 0) = Some (Inr ASYNC_SUSPENDED, s1)"
    by (simp add: defs)
  then have s1: "s1 = snd (the (foo NoOpDone (AsyncAt 0) (sample_state 0)))"
    by simp
  have a1: "foo_instance s1 0 3 2 1"
    unfolding s1 by (simp add: defs foo_instance_def bar_instance_def)
  have a2: "load_async s1 (AsyncAt 0) = Some ?blk"
    unfolding s1 by (simp add: defs)
  have a3: "phase ?blk \<noteq> FINISHED" "resumePoint ?blk = 110"
    by simp_all
  have a4: "load_foo_stack s1 3 = Some ?f23"
    unfolding s1 by (simp add: defs)
  have a5: "\<forall>act \<in> set ?env. 0 \<notin> footprint s1 act \<and> 3 \<notin> footprint s1 act"
    unfolding s1 by (simp add: defs frame_of_def)
  obtain s2 where a6: "run NoOpDone ?env s1 = Some (?log, s2)"
    unfolding s1 by (simp add: defs)
  then have s2: "s2 = snd (the (run NoOpDone ?env s1))"
    by simp
  obtain s3 where a7: "foo NoOpDone (AsyncAt 0) s2 = Some (Inr ASYNC_FINISHED, s3)"
    unfolding s2 s1 by (simp add: defs)
  note ta = frame_value_persists [OF a1 a2 a3 a4 a5 a6 a7,
      where sa = "sample_state 0" and blka = "zero_async\<lparr>stack := Some 3\<rparr>"]
  from ta have ra1: "map_option num (load_foo_stack s3 3) = Some (num ?f23)"
    by blast
  from ta obtain v where rv: "phase (bar_pt ?f23) \<noteq> FINISHED \<longrightarrow>
        ((Inr ASYNC_FINISHED :: result) = Inr ASYNC_FINISHED \<longleftrightarrow> v \<noteq> 0)"
    and ro: "stdout s3 = stdout s2 @
              (if phase (bar_pt ?f23) = FINISHED then []
               else (if resumePoint (bar_pt ?f23) = 0 then [Puts ''bar start''] else []) @
                    (if (v :: 32 word) = 0 then [] else [Puts ''bar end''])) @
              (if (Inr ASYNC_FINISHED :: result) = Inr ASYNC_FINISHED
               then [Printf ''num in the foo stack is still %d'' (Some (sint (num ?f23))),
                     Printf ''but the local_num is now %d'' None,
                     Puts ''foo end'']
               else [])"
    by blast
  from rv have "v \<noteq> 0" by simp
  with ra1 ro
  have ra: "map_option num (load_foo_stack s3 3) = Some 23 \<and>
     stdout s3 = stdout s2 @
       [Puts ''bar end'',
        Printf ''num in the foo stack is still %d'' (Some 23),
        Printf ''but the local_num is now %d'' None,
        Puts ''foo end'']"
    by simp
  obtain w1 where b0: "store_foo_stack 3 ?f7 s1 = Some w1"
    unfolding s1 by (simp add: defs)
  then have w1: "w1 = the (store_foo_stack 3 ?f7 s1)"
    by simp
  have b1: "foo_instance w1 0 3 2 1"
    unfolding w1 s1 by (simp add: defs foo_instance_def bar_instance_def)
  have b2: "load_async w1 (AsyncAt 0) = Some ?blk"
    unfolding w1 s1 by (simp add: defs)
  have b4: "load_foo_stack w1 3 = Some ?f7"
    unfolding w1 s1 by (simp add: defs)
  have b5: "\<forall>act \<in> set ?env. 0 \<notin> footprint w1 act \<and> 3 \<notin> footprint w1 act"
    unfolding w1 s1 by (simp add: defs frame_of_def)
  obtain w2 where b6: "run NoOpDone ?env w1 = Some (?log, w2)"
    unfolding w1 s1 by (simp add: defs)
  then have w2: "w2 = snd (the (run NoOpDone ?env w1))"
    by simp
  obtain w3 where b7: "foo NoOpDone (AsyncAt 0) w2 = Some (Inr ASYNC_FINISHED, w3)"
    unfolding w2 w1 s1 by (simp add: defs)
  note tb = frame_value_persists [OF b1 b2 a3 b4 b5 b6 b7,
      where sa = "sample_state 0" and blka = "zero_async\<lparr>stack := Some 3\<rparr>"]
  from tb have rb1: "map_option num (load_foo_stack w3 3) = Some (num ?f7)"
    by blast
  from tb obtain v' where rv': "phase (bar_pt ?f7) \<noteq> FINISHED \<longrightarrow>
        ((Inr ASYNC_FINISHED :: result) = Inr ASYNC_FINISHED \<longleftrightarrow> v' \<noteq> 0)"
    and ro': "stdout w3 = stdout w2 @
              (if phase (bar_pt ?f7) = FINISHED then []
               else (if resumePoint (bar_pt ?f7) = 0 then [Puts ''bar start''] else []) @
                    (if (v' :: 32 word) = 0 then [] else [Puts ''bar end''])) @
              (if (Inr ASYNC_FINISHED :: result) = Inr ASYNC_FINISHED
               then [Printf ''num in the foo stack is still %d'' (Some (sint (num ?f7))),
                     Printf ''but the local_num is now %d'' None,
                     Puts ''foo end'']
               else [])"
    by blast
  from rv' have "v' \<noteq> 0" by simp
  with rb1 ro'
  have rb: "map_option num (load_foo_stack w3 3) = Some 7 \<and>
     stdout w3 = stdout w2 @
       [Puts ''bar end'',
        Printf ''num in the foo stack is still %d'' (Some 7),
        Printf ''but the local_num is now %d'' None,
        Puts ''foo end'']"
    by simp
  from h1 h2 h5 a1 a2 a4 a5 a6 a7 ra b0 b1 b2 b4 b5 b6 b7 rb show ?thesis by blast
qed

subsection \<open>An instance among other actions\<close>

lemma run_Cons:
  "run pol (act # acts) s = do {
     (l1, s1) \<leftarrow> perform pol act s;
     (l2, s2) \<leftarrow> run pol acts s1;
     Some (l1 @ l2, s2)
   }"
  by (cases act) (auto split: option.splits Option.bind_splits)

lemma perform_writes:
  "perform pol act s = Some (l, s1) \<Longrightarrow> writes_only (footprint s act) s s1"
  by (cases act) (auto dest: foo_writes bar_writes store_int_writes)

lemma perform_log:
  "perform pol act s = Some (l, s1) \<Longrightarrow> (q, r) \<in> set l \<Longrightarrow> block_addr q \<in> footprint s act"
  by (cases act) auto

lemma bar_instance_shape_iff:
  "bar_instance s pt bs lk \<longleftrightarrow>
     (case pt of AsyncAt a \<Rightarrow> map_option shape_of (heap s a) = Some (AsyncShape (Some bs))
              | BarPtOf a \<Rightarrow> map_option shape_of (heap s a) = Some (FooStackShape (Some bs))) \<and>
     map_option shape_of (heap s bs) = Some (BarStackShape (Some lk)) \<and>
     map_option shape_of (heap s lk) = Some IntShape"
  unfolding bar_instance_iff by (cases pt) (auto split: option.splits object.splits)

lemma bar_instance_same_shape:
  "same_shape s t \<Longrightarrow> bar_instance s pt bs lk \<Longrightarrow> bar_instance t pt bs lk"
  by (simp add: bar_instance_shape_iff same_shape_def split: async_ptr.splits)

lemma run_isolated:
  fixes keep :: "action \<Rightarrow> bool" and V :: "addr set" and inv :: "state \<Rightarrow> bool"
  assumes sim: "\<And>act s s' l s1. keep act \<Longrightarrow> inv s \<Longrightarrow> \<forall>a \<in> V. heap s' a = heap s a \<Longrightarrow>
      perform pol act s = Some (l, s1) \<Longrightarrow>
      \<exists>s1'. perform pol act s' = Some (l, s1') \<and> (\<forall>a \<in> V. heap s1' a = heap s1 a)"
    and mine: "\<And>act s l s1. keep act \<Longrightarrow> perform pol act s = Some (l, s1) \<Longrightarrow>
      filter (\<lambda>(q, r). q = me) l = l"
    and inv_shape: "\<And>s s1. inv s \<Longrightarrow> same_shape s s1 \<Longrightarrow> inv s1"
    and me: "block_addr me \<in> V"
  shows "run pol sched s = Some (log, t) \<Longrightarrow> inv s \<Longrightarrow> \<forall>a \<in> V. heap s' a = heap s a \<Longrightarrow>
    \<forall>act \<in> set sched. keep act \<or> footprint s act \<inter> V = {} \<Longrightarrow>
    \<exists>t'. run pol (filter keep sched) s' = Some (filter (\<lambda>(q, r). q = me) log, t') \<and>
         (\<forall>a \<in> V. heap t' a = heap t a)"
proof (induction sched arbitrary: s s' log)
  case Nil
  then show ?case by simp
next
  case (Cons act sched)
  from Cons.prems(1) obtain l1 s1 l2 where p: "perform pol act s = Some (l1, s1)"
    and r: "run pol sched s1 = Some (l2, t)" and log: "log = l1 @ l2"
    unfolding run_Cons by (auto simp: Option.bind_eq_Some_conv)
  note w = perform_writes [OF p]
  from w have sh: "same_shape s s1" by (rule writes_only_shape)
  have inv1: "inv s1" using inv_shape [OF Cons.prems(2) sh] .
  have rest: "\<forall>act \<in> set sched. keep act \<or> footprint s1 act \<inter> V = {}"
    using Cons.prems(4) by (simp add: footprint_same_shape [OF sh])
  show ?case
  proof (cases "keep act")
    case True
    from sim [OF True Cons.prems(2,3) p]
    obtain s1' where p': "perform pol act s' = Some (l1, s1')"
      and ag: "\<forall>a \<in> V. heap s1' a = heap s1 a"
      by blast
    from Cons.IH [OF r inv1 ag rest]
    obtain t' where "run pol (filter keep sched) s1' = Some (filter (\<lambda>(q, r). q = me) l2, t')"
      "\<forall>a \<in> V. heap t' a = heap t a"
      by blast
    with True p' mine [OF True p] log show ?thesis
      by (simp add: run_Cons)
  next
    case False
    with Cons.prems(4) have dj: "footprint s act \<inter> V = {}" by simp
    have ag: "\<forall>a \<in> V. heap s' a = heap s1 a"
      using writes_onlyD [OF w] dj Cons.prems(3) by (metis disjoint_iff)
    have none: "filter (\<lambda>(q, r). q = me) l1 = []"
      using perform_log [OF p] dj me by (auto simp: filter_empty_conv)
    from Cons.IH [OF r inv1 ag rest] False none log show ?thesis by simp
  qed
qed

lemma foo_view:
  assumes inst: "foo_instance s pa fs bs lk"
    and agree: "\<forall>a \<in> {pa, fs, bs, lk}. heap (s' :: state) a = heap s a"
    and call: "foo pol (AsyncAt pa) s = Some (r, s1)"
  shows "\<exists>s1'. foo pol (AsyncAt pa) s' = Some (r, s1') \<and>
           (\<forall>a \<in> {pa, fs, bs, lk}. heap s1' a = heap s1 a)"
proof -
  from inst obtain blk f b v where f: "heap s pa = Some (AsyncObj blk)" "stack blk = Some fs"
    "heap s fs = Some (FooStackObj f)" "stack (bar_pt f) = Some bs"
    "heap s bs = Some (BarStackObj b)" "lock b = Some lk" "heap s lk = Some (IntObj v)"
    by (auto simp: foo_instance_iff)
  from f agree have f': "heap s' pa = Some (AsyncObj blk)" "stack blk = Some fs"
    "heap s' fs = Some (FooStackObj f)" "stack (bar_pt f) = Some bs"
    "heap s' bs = Some (BarStackObj b)" "lock b = Some lk" "heap s' lk = Some (IntObj v)"
    by simp_all
  show ?thesis
    using call agree unfolding foo_closed [OF f] foo_closed [OF f']
    by auto
qed

lemma bar_view:
  assumes inst: "bar_instance s pt bs lk"
    and agree: "\<forall>a \<in> {block_addr pt, bs, lk}. heap (s' :: state) a = heap s a"
    and call: "bar pol pt s = Some (r, s1)"
  shows "\<exists>s1'. bar pol pt s' = Some (r, s1') \<and>
           (\<forall>a \<in> {block_addr pt, bs, lk}. heap s1' a = heap s1 a)"
proof -
  from inst obtain blk b v where f: "load_async s pt = Some blk" "stack blk = Some bs"
    "heap s bs = Some (BarStackObj b)" "lock b = Some lk" "heap s lk = Some (IntObj v)"
    by (auto simp: bar_instance_iff)
  from f agree have f': "load_async s' pt = Some blk" "stack blk = Some bs"
    "heap s' bs = Some (BarStackObj b)" "lock b = Some lk" "heap s' lk = Some (IntObj v)"
    by (cases pt; simp)+
  have ne: "bs \<noteq> block_addr pt" "lk \<noteq> block_addr pt"
    using f by (cases pt; auto split: option.splits object.splits)+
  show ?thesis
    using call agree ne f(1) unfolding bar_closed [OF f] bar_closed [OF f']
    by (cases pt) (auto split: option.splits object.splits)
qed

lemma store_view:
  fixes s s' :: state
  assumes "\<exists>w. heap s lk = Some (IntObj w)" "lk \<in> V"
    and agree: "\<forall>a \<in> V. heap s' a = heap s a"
    and st: "perform pol (Store lk v) s = Some (l, s1)"
  shows "\<exists>s1'. perform pol (Store lk v) s' = Some (l, s1') \<and> (\<forall>a \<in> V. heap s1' a = heap s1 a)"
  using assms by (auto simp: store_int_def split: option.splits object.splits)

section \<open>Reentrancy\<close>

text \<open>
  Claim C7. Let a run contain the resume calls of one instance (of \<^verbatim>\<open>foo\<close>, first
  part; of \<^verbatim>\<open>bar\<close>, second part), the stores into its flag, and any other actions
  whose footprints avoid the objects of the instance: the resume calls of a second,
  separately allocated instance of the same task function are such actions, in any
  number and interleaved in any order. Then the run of the instance in isolation (the
  other actions removed) is defined, logs for the instance exactly the results the
  interleaved run logs for it, in the same order, and ends with the same Control Block
  and the same frame. Since this holds for each instance, nothing is shared between
  two of them.
\<close>

theorem instances_do_not_interfere:
  assumes run: "run pol sched s = Some (log, t)"
  shows "(foo_instance s pa fs bs lk \<and>
          (\<forall>act \<in> set sched. drives (Resume_foo (AsyncAt pa)) lk act \<or>
                              footprint s act \<inter> {pa, fs, bs, lk} = {})
          \<longrightarrow> (\<exists>t'. run pol (filter (drives (Resume_foo (AsyncAt pa)) lk) sched) s =
                      Some (filter (\<lambda>(q, r). q = AsyncAt pa) log, t') \<and>
                    heap t' pa = heap t pa \<and> heap t' fs = heap t fs \<and>
                    heap t' bs = heap t bs \<and> heap t' lk = heap t lk)) \<and>
         (bar_instance s pt bs' lk' \<and>
          (\<forall>act \<in> set sched. drives (Resume_bar pt) lk' act \<or>
                              footprint s act \<inter> {block_addr pt, bs', lk'} = {})
          \<longrightarrow> (\<exists>t'. run pol (filter (drives (Resume_bar pt) lk') sched) s =
                      Some (filter (\<lambda>(q, r). q = pt) log, t') \<and>
                    heap t' (block_addr pt) = heap t (block_addr pt) \<and>
                    heap t' bs' = heap t bs' \<and> heap t' lk' = heap t lk'))"
proof (intro conjI impI; elim conjE)
  assume inst: "foo_instance s pa fs bs lk"
    and others: "\<forall>act \<in> set sched. drives (Resume_foo (AsyncAt pa)) lk act \<or>
                              footprint s act \<inter> {pa, fs, bs, lk} = {}"
  have "\<exists>t'. run pol (filter (drives (Resume_foo (AsyncAt pa)) lk) sched) s =
                 Some (filter (\<lambda>(q, r). q = AsyncAt pa) log, t') \<and>
              (\<forall>a \<in> {pa, fs, bs, lk}. heap t' a = heap t a)"
  proof (rule run_isolated [where inv = "\<lambda>s. foo_instance s pa fs bs lk", OF _ _ _ _ run inst _ others])
    fix act and s s' :: state and l s1
    assume k: "drives (Resume_foo (AsyncAt pa)) lk act" and i: "foo_instance s pa fs bs lk"
      and ag: "\<forall>a \<in> {pa, fs, bs, lk}. heap s' a = heap s a"
      and p: "perform pol act s = Some (l, s1)"
    from k consider "act = Resume_foo (AsyncAt pa)" | v where "act = Store lk v"
      by (auto simp: drives_def split: action.splits)
    then show "\<exists>s1'. perform pol act s' = Some (l, s1') \<and> (\<forall>a \<in> {pa, fs, bs, lk}. heap s1' a = heap s1 a)"
    proof cases
      case 1
      with p obtain r where c: "foo pol (AsyncAt pa) s = Some (r, s1)" and l: "l = [(AsyncAt pa, r)]"
        by auto
      from foo_view [OF i ag c] 1 l show ?thesis by auto
    next
      case 2
      from i have "\<exists>w. heap s lk = Some (IntObj w)" by (auto simp: foo_instance_iff)
      from store_view [OF this _ ag p [unfolded 2]] 2 show ?thesis by simp
    qed
  next
    fix act s l s1
    assume "drives (Resume_foo (AsyncAt pa)) lk act" "perform pol act s = Some (l, s1)"
    then show "filter (\<lambda>(q, r). q = AsyncAt pa) l = l"
      by (cases act) (auto simp: drives_def)
  qed (auto intro: foo_instance_same_shape)
  then show "\<exists>t'. run pol (filter (drives (Resume_foo (AsyncAt pa)) lk) sched) s =
                      Some (filter (\<lambda>(q, r). q = AsyncAt pa) log, t') \<and>
                    heap t' pa = heap t pa \<and> heap t' fs = heap t fs \<and>
                    heap t' bs = heap t bs \<and> heap t' lk = heap t lk"
    by auto
next
  assume inst: "bar_instance s pt bs' lk'"
    and others: "\<forall>act \<in> set sched. drives (Resume_bar pt) lk' act \<or>
                              footprint s act \<inter> {block_addr pt, bs', lk'} = {}"
  have "\<exists>t'. run pol (filter (drives (Resume_bar pt) lk') sched) s =
                 Some (filter (\<lambda>(q, r). q = pt) log, t') \<and>
              (\<forall>a \<in> {block_addr pt, bs', lk'}. heap t' a = heap t a)"
  proof (rule run_isolated [where inv = "\<lambda>s. bar_instance s pt bs' lk'", OF _ _ _ _ run inst _ others])
    fix act and s s' :: state and l s1
    assume k: "drives (Resume_bar pt) lk' act" and i: "bar_instance s pt bs' lk'"
      and ag: "\<forall>a \<in> {block_addr pt, bs', lk'}. heap s' a = heap s a"
      and p: "perform pol act s = Some (l, s1)"
    from k consider "act = Resume_bar pt" | v where "act = Store lk' v"
      by (auto simp: drives_def split: action.splits)
    then show "\<exists>s1'. perform pol act s' = Some (l, s1') \<and>
        (\<forall>a \<in> {block_addr pt, bs', lk'}. heap s1' a = heap s1 a)"
    proof cases
      case 1
      with p obtain r where c: "bar pol pt s = Some (r, s1)" and l: "l = [(pt, r)]"
        by auto
      from bar_view [OF i ag c] 1 l show ?thesis by auto
    next
      case 2
      from i have "\<exists>w. heap s lk' = Some (IntObj w)" by (auto simp: bar_instance_iff)
      from store_view [OF this _ ag p [unfolded 2]] 2 show ?thesis by simp
    qed
  next
    fix act s l s1
    assume "drives (Resume_bar pt) lk' act" "perform pol act s = Some (l, s1)"
    then show "filter (\<lambda>(q, r). q = pt) l = l"
      by (cases act) (auto simp: drives_def)
  qed (auto intro: bar_instance_same_shape)
  then show "\<exists>t'. run pol (filter (drives (Resume_bar pt) lk') sched) s =
                      Some (filter (\<lambda>(q, r). q = pt) log, t') \<and>
                    heap t' (block_addr pt) = heap t (block_addr pt) \<and>
                    heap t' bs' = heap t bs' \<and> heap t' lk' = heap t lk'"
    by auto
qed

theorem instances_do_not_interfere_witness:
  "\<exists>log t tp tq log2 t2 tb.
     run NoOpDone
       [Resume_foo (AsyncAt 0), Resume_foo (AsyncAt 10), Store 1 1, Resume_foo (AsyncAt 10),
        Resume_foo (AsyncAt 0), Store 11 1, Resume_foo (AsyncAt 10)] (sample_state 0) = Some (log, t) \<and>
     log = [(AsyncAt 0, Inr ASYNC_SUSPENDED), (AsyncAt 10, Inr ASYNC_SUSPENDED),
            (AsyncAt 10, Inr ASYNC_SUSPENDED), (AsyncAt 0, Inr ASYNC_FINISHED),
            (AsyncAt 10, Inr ASYNC_FINISHED)] \<and>
     foo_instance (sample_state 0) 0 3 2 1 \<and>
     run NoOpDone [Resume_foo (AsyncAt 0), Store 1 1, Resume_foo (AsyncAt 0)] (sample_state 0) =
       Some ([(AsyncAt 0, Inr ASYNC_SUSPENDED), (AsyncAt 0, Inr ASYNC_FINISHED)], tp) \<and>
     heap tp 0 = heap t 0 \<and> heap tp 3 = heap t 3 \<and>
     foo_instance (sample_state 0) 10 13 12 11 \<and>
     run NoOpDone [Resume_foo (AsyncAt 10), Resume_foo (AsyncAt 10), Store 11 1, Resume_foo (AsyncAt 10)]
       (sample_state 0) =
       Some ([(AsyncAt 10, Inr ASYNC_SUSPENDED), (AsyncAt 10, Inr ASYNC_SUSPENDED),
              (AsyncAt 10, Inr ASYNC_FINISHED)], tq) \<and>
     heap tq 10 = heap t 10 \<and> heap tq 13 = heap t 13 \<and>
     bar_instance (sample_state 0) (BarPtOf 3) 2 1 \<and>
     run NoOpDone
       [Resume_bar (BarPtOf 3), Resume_bar (BarPtOf 13), Store 1 1, Resume_bar (BarPtOf 13),
        Resume_bar (BarPtOf 3)] (sample_state 0) = Some (log2, t2) \<and>
     log2 = [(BarPtOf 3, Inr ASYNC_SUSPENDED), (BarPtOf 13, Inr ASYNC_SUSPENDED),
             (BarPtOf 13, Inr ASYNC_SUSPENDED), (BarPtOf 3, Inr ASYNC_FINISHED)] \<and>
     run NoOpDone [Resume_bar (BarPtOf 3), Store 1 1, Resume_bar (BarPtOf 3)] (sample_state 0) =
       Some ([(BarPtOf 3, Inr ASYNC_SUSPENDED), (BarPtOf 3, Inr ASYNC_FINISHED)], tb) \<and>
     heap tb 3 = heap t2 3"
proof -
  note defs = sample_state_def zero_async_def foo_def foo_top_def foo_L110_def bar_def
    bar_L126_def async_begin_def async_init_def await_suspend_def async_end_def
    load_foo_stack_def store_foo_stack_def load_bar_stack_def load_int_def store_int_def
    puts_def printf_def Let_def misuse_outcome_def
  let ?sched = "[Resume_foo (AsyncAt 0), Resume_foo (AsyncAt 10), Store 1 1, Resume_foo (AsyncAt 10),
        Resume_foo (AsyncAt 0), Store 11 1, Resume_foo (AsyncAt 10)]"
  let ?log = "[(AsyncAt 0, Inr ASYNC_SUSPENDED), (AsyncAt 10, Inr ASYNC_SUSPENDED),
            (AsyncAt 10, Inr ASYNC_SUSPENDED), (AsyncAt 0, Inr ASYNC_FINISHED),
            (AsyncAt 10, Inr ASYNC_FINISHED)] :: (async_ptr \<times> result) list"
  let ?sched2 = "[Resume_bar (BarPtOf 3), Resume_bar (BarPtOf 13), Store 1 1, Resume_bar (BarPtOf 13),
        Resume_bar (BarPtOf 3)]"
  let ?log2 = "[(BarPtOf 3, Inr ASYNC_SUSPENDED), (BarPtOf 13, Inr ASYNC_SUSPENDED),
             (BarPtOf 13, Inr ASYNC_SUSPENDED), (BarPtOf 3, Inr ASYNC_FINISHED)] :: (async_ptr \<times> result) list"
  have ip: "foo_instance (sample_state 0) 0 3 2 1"
    by (simp add: defs foo_instance_def bar_instance_def)
  have iq: "foo_instance (sample_state 0) 10 13 12 11"
    by (simp add: defs foo_instance_def bar_instance_def)
  have ib: "bar_instance (sample_state 0) (BarPtOf 3) 2 1"
    by (simp add: defs bar_instance_def)
  have op: "\<forall>act \<in> set ?sched. drives (Resume_foo (AsyncAt 0)) 1 act \<or>
      footprint (sample_state 0) act \<inter> {0, 3, 2, 1} = {}"
    by (simp add: drives_def frame_of_def sample_state_def zero_async_def)
  have oq: "\<forall>act \<in> set ?sched. drives (Resume_foo (AsyncAt 10)) 11 act \<or>
      footprint (sample_state 0) act \<inter> {10, 13, 12, 11} = {}"
    by (simp add: drives_def frame_of_def sample_state_def zero_async_def)
  have ob: "\<forall>act \<in> set ?sched2. drives (Resume_bar (BarPtOf 3)) 1 act \<or>
      footprint (sample_state 0) act \<inter> {block_addr (BarPtOf 3), 2, 1} = {}"
    by (simp add: drives_def)
  obtain t where r: "run NoOpDone ?sched (sample_state 0) = Some (?log, t)"
    by (simp add: defs)
  obtain t2 where r2: "run NoOpDone ?sched2 (sample_state 0) = Some (?log2, t2)"
    by (simp add: defs)
  from instances_do_not_interfere [OF r, of 0 3 2 1 "BarPtOf 3" 2 1] ip op
  obtain tp where "run NoOpDone (filter (drives (Resume_foo (AsyncAt 0)) 1) ?sched) (sample_state 0) =
      Some (filter (\<lambda>(q, r). q = AsyncAt 0) ?log, tp)" "heap tp 0 = heap t 0" "heap tp 3 = heap t 3"
    by blast
  then have cp: "run NoOpDone [Resume_foo (AsyncAt 0), Store 1 1, Resume_foo (AsyncAt 0)] (sample_state 0) =
       Some ([(AsyncAt 0, Inr ASYNC_SUSPENDED), (AsyncAt 0, Inr ASYNC_FINISHED)], tp)"
    "heap tp 0 = heap t 0" "heap tp 3 = heap t 3"
    by (simp_all add: drives_def)
  from instances_do_not_interfere [OF r, of 10 13 12 11 "BarPtOf 3" 2 1] iq oq
  obtain tq where "run NoOpDone (filter (drives (Resume_foo (AsyncAt 10)) 11) ?sched) (sample_state 0) =
      Some (filter (\<lambda>(q, r). q = AsyncAt 10) ?log, tq)" "heap tq 10 = heap t 10" "heap tq 13 = heap t 13"
    by blast
  then have cq: "run NoOpDone [Resume_foo (AsyncAt 10), Resume_foo (AsyncAt 10), Store 11 1, Resume_foo (AsyncAt 10)]
       (sample_state 0) =
       Some ([(AsyncAt 10, Inr ASYNC_SUSPENDED), (AsyncAt 10, Inr ASYNC_SUSPENDED),
              (AsyncAt 10, Inr ASYNC_FINISHED)], tq)"
    "heap tq 10 = heap t 10" "heap tq 13 = heap t 13"
    by (simp_all add: drives_def)
  from instances_do_not_interfere [OF r2, of 0 3 2 1 "BarPtOf 3" 2 1] ib ob
  obtain tb where "run NoOpDone (filter (drives (Resume_bar (BarPtOf 3)) 1) ?sched2) (sample_state 0) =
      Some (filter (\<lambda>(q, r). q = BarPtOf 3) ?log2, tb)"
    "heap tb (block_addr (BarPtOf 3)) = heap t2 (block_addr (BarPtOf 3))"
    by blast
  then have cb: "run NoOpDone [Resume_bar (BarPtOf 3), Store 1 1, Resume_bar (BarPtOf 3)] (sample_state 0) =
       Some ([(BarPtOf 3, Inr ASYNC_SUSPENDED), (BarPtOf 3, Inr ASYNC_FINISHED)], tb)"
    "heap tb 3 = heap t2 3"
    by (simp_all add: drives_def)
  from r r2 ip iq ib cp cq cb show ?thesis by blast
qed

end
